theory Spec2Isabelle
  imports Complex_Main "HOL-Library.Sublist" "HOL-Library.AList" "HOL-Library.Multiset"
begin

section \<open>Python strings\<close>

text \<open>
  A Python \<open>str\<close> is modelled as a \<open>string\<close> whose characters are read as the code
  points 0 to 255.  The character classes below are the ones \<open>str.isspace\<close>,
  \<open>str.lower\<close> and the \<open>re\<close> module use on that range.
\<close>

definition code :: "char \<Rightarrow> nat" where
  "code c = of_char c"

text \<open>\<open>str.isspace\<close>, also the class \<open>\s\<close> of \<open>re\<close> and what \<open>str.strip()\<close> removes.\<close>

definition isspace :: "char \<Rightarrow> bool" where
  "isspace c = (let n = code c in
     (9 \<le> n \<and> n \<le> 13) \<or> (28 \<le> n \<and> n \<le> 32) \<or> n = 133 \<or> n = 160)"

definition strip :: "string \<Rightarrow> string" where
  "strip s = rev (dropWhile isspace (rev (dropWhile isspace s)))"

definition lower_char :: "char \<Rightarrow> char" where
  "lower_char c = (let n = code c in
     if (65 \<le> n \<and> n \<le> 90) \<or> (192 \<le> n \<and> n \<le> 222 \<and> n \<noteq> 215)
     then char_of (n + 32) else c)"

definition lower :: "string \<Rightarrow> string" where
  "lower s = map lower_char s"

section \<open>Language filter\<close>

text \<open>
  \<open>is_english\<close> of \<open>src/preprocessor.py\<close>.  The classifier \<open>langdetect.detect\<close> is a
  parameter: it returns a language tag (\<open>Inr\<close>) or raises an \<open>Exception\<close> (\<open>Inl\<close>),
  which the \<open>except\<close> clause catches.
\<close>

definition is_english :: "(string \<Rightarrow> 'e + string) \<Rightarrow> string \<Rightarrow> bool" where
  "is_english detect text =
     (if text = [] \<or> length (strip text) < 3 then False
      else (case detect text of
              Inr lang \<Rightarrow> lang = ''en''
            | Inl e \<Rightarrow> True))"

section \<open>Duplicate detector\<close>

text \<open>
  \<open>find_duplicates\<close> of \<open>src/preprocessor.py\<close>.  \<open>rapidfuzz.fuzz.ratio\<close> is a
  parameter \<open>ratio\<close>; its value is a finite float, read as a rational.  The list
  \<open>indices_to_remove\<close> is the state threaded through both loops.
\<close>

definition similar :: "(string \<Rightarrow> string \<Rightarrow> rat) \<Rightarrow> int \<Rightarrow> string list \<Rightarrow> nat \<Rightarrow> nat \<Rightarrow> bool" where
  "similar ratio threshold texts i j =
     (of_int threshold \<le> ratio (lower (texts ! i)) (lower (texts ! j)))"

text \<open>One pass of the body of the inner loop, for the index \<open>j\<close>.\<close>

definition inner_step ::
  "(string \<Rightarrow> string \<Rightarrow> rat) \<Rightarrow> int \<Rightarrow> string list \<Rightarrow> nat \<Rightarrow> nat list \<Rightarrow> nat \<Rightarrow> nat list" where
  "inner_step ratio threshold texts i indices_to_remove j =
     (if j \<in> set indices_to_remove then indices_to_remove
      else if similar ratio threshold texts i j then indices_to_remove @ [j]
      else indices_to_remove)"

text \<open>One pass of the body of the outer loop: \<open>for j in range(i + 1, len(texts))\<close>.\<close>

definition outer_step ::
  "(string \<Rightarrow> string \<Rightarrow> rat) \<Rightarrow> int \<Rightarrow> string list \<Rightarrow> nat list \<Rightarrow> nat \<Rightarrow> nat list" where
  "outer_step ratio threshold texts indices_to_remove i =
     (if i \<in> set indices_to_remove then indices_to_remove
      else foldl (inner_step ratio threshold texts i) indices_to_remove
             [i + 1 ..< length texts])"

definition marked :: "(string \<Rightarrow> string \<Rightarrow> rat) \<Rightarrow> int \<Rightarrow> string list \<Rightarrow> nat list" where
  "marked ratio threshold texts =
     foldl (outer_step ratio threshold texts) [] [0 ..< length texts]"

text \<open>\<open>sorted(set(indices_to_remove))\<close>.\<close>

definition find_duplicates :: "(string \<Rightarrow> string \<Rightarrow> rat) \<Rightarrow> string list \<Rightarrow> int \<Rightarrow> nat list" where
  "find_duplicates ratio texts threshold = sort (remdups (marked ratio threshold texts))"

text \<open>
  The same two loops with a ghost log: every evaluation of \<open>fuzz.ratio\<close> (line 100)
  appends the pair \<open>(i, j)\<close> it compares.  The first component of the state is
  \<open>indices_to_remove\<close>, unchanged from the definitions above.
\<close>

type_synonym traced = "nat list \<times> (nat \<times> nat) list"

definition traced_inner_step ::
  "(string \<Rightarrow> string \<Rightarrow> rat) \<Rightarrow> int \<Rightarrow> string list \<Rightarrow> nat \<Rightarrow> traced \<Rightarrow> nat \<Rightarrow> traced" where
  "traced_inner_step ratio threshold texts i st j =
     (if j \<in> set (fst st) then st
      else if similar ratio threshold texts i j then (fst st @ [j], snd st @ [(i, j)])
      else (fst st, snd st @ [(i, j)]))"

definition traced_outer_step ::
  "(string \<Rightarrow> string \<Rightarrow> rat) \<Rightarrow> int \<Rightarrow> string list \<Rightarrow> traced \<Rightarrow> nat \<Rightarrow> traced" where
  "traced_outer_step ratio threshold texts st i =
     (if i \<in> set (fst st) then st
      else foldl (traced_inner_step ratio threshold texts i) st [i + 1 ..< length texts])"

definition traced_run :: "(string \<Rightarrow> string \<Rightarrow> rat) \<Rightarrow> int \<Rightarrow> string list \<Rightarrow> traced" where
  "traced_run ratio threshold texts =
     foldl (traced_outer_step ratio threshold texts) ([], []) [0 ..< length texts]"

definition comparisons :: "(string \<Rightarrow> string \<Rightarrow> rat) \<Rightarrow> string list \<Rightarrow> int \<Rightarrow> (nat \<times> nat) list" where
  "comparisons ratio texts threshold = snd (traced_run ratio threshold texts)"

text \<open>
  The invariant of both loops, on the traced state: the marked indices are distinct and
  are exactly the targets of the comparisons that succeeded; every comparison so far has
  a source below the bound \<open>k\<close>, before its target, and not marked; and no index
  takes part in a comparison after the one that marked it.
\<close>

definition dd_inv ::
  "(string \<Rightarrow> string \<Rightarrow> rat) \<Rightarrow> int \<Rightarrow> string list \<Rightarrow> nat \<Rightarrow> traced \<Rightarrow> bool" where
  "dd_inv ratio threshold texts k st =
     (distinct (fst st) \<and>
      set (fst st) = {j. \<exists>i. (i, j) \<in> set (snd st) \<and> similar ratio threshold texts i j} \<and>
      (\<forall>(i, j) \<in> set (snd st). i < j \<and> j < length texts \<and> i < k \<and> i \<notin> set (fst st)) \<and>
      (\<forall>xs i j ys. snd st = xs @ (i, j) # ys \<and> similar ratio threshold texts i j \<longrightarrow>
         (\<forall>(a, b) \<in> set ys. a \<noteq> j \<and> b \<noteq> j)))"

text \<open>A stand-in for \<open>fuzz.ratio\<close> on concrete inputs: 100 on equal strings, 0 otherwise.\<close>

definition exact_ratio :: "string \<Rightarrow> string \<Rightarrow> rat" where
  "exact_ratio a b = (if a = b then 100 else 0)"

section \<open>Text normalizer\<close>

text \<open>
  \<open>clean_text\<close> of \<open>src/preprocessor.py\<close> is four calls of \<open>re.sub\<close> and a \<open>strip\<close>.
  The patterns are values of the type \<open>regex\<close>; \<open>matches\<close> gives, for a position of the
  subject, every way the pattern matches there, in the order a backtracking matcher
  tries them, so the head of the list is the match \<open>re\<close> reports.  A position is the
  character before it (none at the start) and the rest of the subject.
\<close>

datatype regex =
    Str string                        \<comment> \<open>literal characters, at least one\<close>
  | Class bool "(char \<times> char) list"    \<comment> \<open>\<open>[...]\<close> as ranges; \<open>True\<close> for \<open>[^...]\<close>\<close>
  | Space                             \<comment> \<open>\<open>\s\<close>\<close>
  | WordBoundary                      \<comment> \<open>\<open>\b\<close>\<close>
  | Seq regex regex
  | Alt regex regex                   \<comment> \<open>\<open>a|b\<close>\<close>
  | Opt regex                         \<comment> \<open>\<open>a?\<close>, greedy\<close>
  | AtLeast nat regex                 \<comment> \<open>\<open>a{n,}\<close>, greedy; \<open>a+\<close> is \<open>a{1,}\<close>\<close>

type_synonym position = "char option \<times> string"

definition in_ranges :: "char \<Rightarrow> (char \<times> char) list \<Rightarrow> bool" where
  "in_ranges c rs = list_ex (\<lambda>(lo, hi). code lo \<le> code c \<and> code c \<le> code hi) rs"

text \<open>
  \<open>\w\<close> on the code points below 256: letters, digits and the underscore of ASCII,
  and the letters and numeric characters of Latin-1.
\<close>

definition is_word_char :: "char \<Rightarrow> bool" where
  "is_word_char c = (let n = code c in
     (48 \<le> n \<and> n \<le> 57) \<or> (65 \<le> n \<and> n \<le> 90) \<or> n = 95 \<or> (97 \<le> n \<and> n \<le> 122) \<or>
     n = 170 \<or> n = 178 \<or> n = 179 \<or> n = 181 \<or> n = 185 \<or> n = 186 \<or>
     (188 \<le> n \<and> n \<le> 190) \<or> (192 \<le> n \<and> n \<le> 214) \<or> (216 \<le> n \<and> n \<le> 246) \<or>
     (248 \<le> n \<and> n \<le> 255))"

definition word_before :: "position \<Rightarrow> bool" where
  "word_before p = (case fst p of None \<Rightarrow> False | Some c \<Rightarrow> is_word_char c)"

definition word_after :: "position \<Rightarrow> bool" where
  "word_after p = (case snd p of [] \<Rightarrow> False | c # cs \<Rightarrow> is_word_char c)"

text \<open>Exactly \<open>n\<close> iterations of a matcher, each choice in order.\<close>

primrec times :: "nat \<Rightarrow> (position \<Rightarrow> position list) \<Rightarrow> position \<Rightarrow> position list" where
  "times 0 f p = [p]"
| "times (Suc n) f p = concat (map (times n f) (f p))"

text \<open>
  Any number of further iterations, the longest first.  Every iteration consumes a
  character, so the length of the rest bounds their number.
\<close>

primrec greedy :: "nat \<Rightarrow> (position \<Rightarrow> position list) \<Rightarrow> position \<Rightarrow> position list" where
  "greedy 0 f p = [p]"
| "greedy (Suc k) f p =
     concat (map (\<lambda>q. if length (snd q) < length (snd p) then greedy k f q else []) (f p)) @ [p]"

primrec matches :: "regex \<Rightarrow> position \<Rightarrow> position list" where
  "matches (Str l) p =
     (if l \<noteq> [] \<and> take (length l) (snd p) = l
      then [(Some (last l), drop (length l) (snd p))] else [])"
| "matches (Class negated rs) p =
     (case snd p of
        [] \<Rightarrow> []
      | c # cs \<Rightarrow> if in_ranges c rs \<noteq> negated then [(Some c, cs)] else [])"
| "matches Space p =
     (case snd p of
        [] \<Rightarrow> []
      | c # cs \<Rightarrow> if isspace c then [(Some c, cs)] else [])"
| "matches WordBoundary p = (if word_before p \<noteq> word_after p then [p] else [])"
| "matches (Seq a b) p = concat (map (matches b) (matches a p))"
| "matches (Alt a b) p = matches a p @ matches b p"
| "matches (Opt a) p = matches a p @ [p]"
| "matches (AtLeast n a) p =
     concat (map (\<lambda>q. greedy (length (snd q)) (matches a) q) (times n (matches a) p))"

text \<open>
  \<open>re.sub(pattern, repl, text)\<close>, from the left: where the pattern matches, the match is
  replaced and the scan goes on after it (\<open>skip\<close> counts the matched characters still
  to pass); elsewhere the character is kept.  None of the four patterns matches the
  empty string.
\<close>

fun sub_scan :: "regex \<Rightarrow> string \<Rightarrow> nat \<Rightarrow> char option \<Rightarrow> string \<Rightarrow> string" where
  "sub_scan r repl skip prev [] = []"
| "sub_scan r repl (Suc k) prev (c # cs) = sub_scan r repl k (Some c) cs"
| "sub_scan r repl 0 prev (c # cs) =
     (case matches r (prev, c # cs) of
        [] \<Rightarrow> c # sub_scan r repl 0 (Some c) cs
      | m # ms \<Rightarrow>
          (let n = length (c # cs) - length (snd m)
           in if n = 0 then c # sub_scan r repl 0 (Some c) cs
              else repl @ sub_scan r repl (n - 1) (Some c) cs))"

definition re_sub :: "regex \<Rightarrow> string \<Rightarrow> string \<Rightarrow> string" where
  "re_sub r repl text = sub_scan r repl 0 None text"

text \<open>\<open><[^>]+>\<close>\<close>

definition tag_pattern :: regex where
  "tag_pattern =
     Seq (Str ''<'') (Seq (AtLeast 1 (Class True [(CHR ''>'', CHR ''>'')])) (Str ''>''))"

text \<open>\<open>[0-9a-fA-F]\<close>\<close>

definition hex_digit :: regex where
  "hex_digit = Class False [(CHR ''0'', CHR ''9''), (CHR ''a'', CHR ''f''), (CHR ''A'', CHR ''F'')]"

text \<open>
  \<open>http[s]?://(?:[a-zA-Z]|[0-9]|[$-_@.&+]|[!*\\(\\),]|(?:%[0-9a-fA-F][0-9a-fA-F]))+\<close>;
  in the third class \<open>$-_\<close> is a range.
\<close>

definition url_pattern :: regex where
  "url_pattern =
     Seq (Str ''http'')
    (Seq (Opt (Class False [(CHR ''s'', CHR ''s'')]))
    (Seq (Str ''://'')
         (AtLeast 1
           (Alt (Class False [(CHR ''a'', CHR ''z''), (CHR ''A'', CHR ''Z'')])
           (Alt (Class False [(CHR ''0'', CHR ''9'')])
           (Alt (Class False [(CHR ''$'', CHR ''_''), (CHR ''@'', CHR ''@''),
                              (CHR ''.'', CHR ''.''), (CHR ''&'', CHR ''&''),
                              (CHR ''+'', CHR ''+'')])
           (Alt (Class False [(CHR ''!'', CHR ''!''), (CHR ''*'', CHR ''*''),
                              (CHR 0x5C, CHR 0x5C), (CHR ''('', CHR ''(''),
                              (CHR '')'', CHR '')''), (CHR '','', CHR '','')])
                (Seq (Str ''%'') (Seq hex_digit hex_digit)))))))))"

text \<open>\<open>\b[A-Za-z0-9._%+-]+@[A-Za-z0-9.-]+\.[A-Z|a-z]{2,}\b\<close>\<close>

definition email_pattern :: regex where
  "email_pattern =
     Seq WordBoundary
    (Seq (AtLeast 1 (Class False [(CHR ''A'', CHR ''Z''), (CHR ''a'', CHR ''z''),
                                  (CHR ''0'', CHR ''9''), (CHR ''.'', CHR ''.''),
                                  (CHR ''_'', CHR ''_''), (CHR ''%'', CHR ''%''),
                                  (CHR ''+'', CHR ''+''), (CHR ''-'', CHR ''-'')]))
    (Seq (Str ''@'')
    (Seq (AtLeast 1 (Class False [(CHR ''A'', CHR ''Z''), (CHR ''a'', CHR ''z''),
                                  (CHR ''0'', CHR ''9''), (CHR ''.'', CHR ''.''),
                                  (CHR ''-'', CHR ''-'')]))
    (Seq (Str ''.'')
    (Seq (AtLeast 2 (Class False [(CHR ''A'', CHR ''Z''), (CHR ''|'', CHR ''|''),
                                  (CHR ''a'', CHR ''z'')]))
         WordBoundary)))))"

text \<open>\<open>\s+\<close>\<close>

definition whitespace_pattern :: regex where
  "whitespace_pattern = AtLeast 1 Space"

text \<open>A cell of the column \<open>review_text\<close>: a string, or a value of another type.\<close>

datatype cell = Text string | NotText

fun clean_text :: "cell \<Rightarrow> string" where
  "clean_text NotText = []"
| "clean_text (Text text) =
     strip (re_sub whitespace_pattern '' ''
           (re_sub email_pattern []
           (re_sub url_pattern []
           (re_sub tag_pattern [] text))))"

section \<open>Pipeline orchestrator\<close>

text \<open>
  \<open>preprocess_reviews\<close> of \<open>src/preprocessor.py\<close>.  A data frame is the list of its rows;
  a row has its index label, the column \<open>review_text\<close>, the column \<open>cleaned_text\<close>
  (assigned at line 136 before it is read) and the other columns.  The calls of
  \<open>st.info\<close> are returned as a list of messages.
\<close>

record 'a row =
  label :: int
  review_text :: cell
  cleaned_text :: string
  other :: 'a

datatype info = FilteredNonEnglish nat | RemovedDuplicates nat

text \<open>\<open>reset_index(drop=True)\<close>: the labels become 0, 1, 2, ...\<close>

definition reset_index :: "'a row list \<Rightarrow> 'a row list" where
  "reset_index df = map (\<lambda>(k, r). r\<lparr>label := int k\<rparr>) (enumerate 0 df)"

text \<open>\<open>df.drop(labels)\<close>: every row whose label is in \<open>labels\<close> goes.\<close>

definition drop_labels :: "int list \<Rightarrow> 'a row list \<Rightarrow> 'a row list" where
  "drop_labels labels df = filter (\<lambda>r. label r \<notin> set labels) df"

text \<open>Lines 145 to 150.\<close>

definition english_stage ::
  "(string \<Rightarrow> 'e + string) \<Rightarrow> bool \<Rightarrow> 'a row list \<Rightarrow> info list \<times> 'a row list" where
  "english_stage detect filter_english result_df =
     (if filter_english then
        (let non_english_count =
               length (filter (\<lambda>r. \<not> is_english detect (cleaned_text r)) result_df)
         in ((if non_english_count > 0 then [FilteredNonEnglish non_english_count] else []),
             filter (\<lambda>r. is_english detect (cleaned_text r)) result_df))
      else ([], result_df))"

text \<open>
  Lines 156 to 163.  \<open>result_df.index[duplicate_indices]\<close> reads the labels at the
  positions \<open>find_duplicates\<close> returned, all of them below the number of rows.
\<close>

definition duplicate_stage ::
  "(string \<Rightarrow> string \<Rightarrow> rat) \<Rightarrow> bool \<Rightarrow> int \<Rightarrow> 'a row list \<Rightarrow> info list \<times> 'a row list" where
  "duplicate_stage ratio remove_duplicates dedup_threshold result_df =
     (if remove_duplicates then
        (let texts = map cleaned_text result_df;
             duplicate_indices = find_duplicates ratio texts dedup_threshold
         in if duplicate_indices \<noteq> [] then
              ([RemovedDuplicates (length duplicate_indices)],
               reset_index
                 (drop_labels (map (\<lambda>k. label (result_df ! k)) duplicate_indices) result_df))
            else ([], result_df))
      else ([], result_df))"

definition preprocess_reviews ::
  "(string \<Rightarrow> 'e + string) \<Rightarrow> (string \<Rightarrow> string \<Rightarrow> rat) \<Rightarrow>
   'a row list \<Rightarrow> bool \<Rightarrow> bool \<Rightarrow> int \<Rightarrow> info list \<times> 'a row list" where
  "preprocess_reviews detect ratio df remove_duplicates filter_english dedup_threshold =
     (if df = [] then ([], df)
      else
        let cleaned = map (\<lambda>r. r\<lparr>cleaned_text := clean_text (review_text r)\<rparr>) df;
            nonempty = filter (\<lambda>r. length (cleaned_text r) > 0) cleaned
        in if nonempty = [] then ([], nonempty)
           else
             let (infos1, english) = english_stage detect filter_english nonempty
             in if english = [] then (infos1, english)
                else
                  let (infos2, deduplicated) =
                        duplicate_stage ratio remove_duplicates dedup_threshold english
                  in (infos1 @ infos2, reset_index deduplicated))"

text \<open>What a row of the result has from the input: its text and its other columns.\<close>

definition origin :: "'a row \<Rightarrow> cell \<times> 'a" where
  "origin r = (review_text r, other r)"

text \<open>
  A stand-in for the classifier on concrete inputs: one Spanish text, one text on which
  it raises, English otherwise.
\<close>

definition example_detect :: "string \<Rightarrow> unit + string" where
  "example_detect s =
     (if s = ''hola amigo'' then Inr ''es'' else if s = ''???'' then Inl () else Inr ''en'')"

text \<open>Eight rows with arbitrary labels; the other column numbers them.\<close>

definition example_rows :: "nat row list" where
  "example_rows =
     [\<lparr>label = 5, review_text = Text ''<p>Great food!</p>'', cleaned_text = [], other = 0\<rparr>,
      \<lparr>label = 7, review_text = Text ''hola amigo'', cleaned_text = [], other = 1\<rparr>,
      \<lparr>label = 6, review_text = Text ''GREAT   FOOD!'', cleaned_text = [], other = 2\<rparr>,
      \<lparr>label = 9, review_text = Text ''<br>'', cleaned_text = [], other = 3\<rparr>,
      \<lparr>label = 11, review_text = NotText, cleaned_text = ''zz'', other = 4\<rparr>,
      \<lparr>label = 3, review_text = Text ''???'', cleaned_text = [], other = 5\<rparr>,
      \<lparr>label = 1, review_text = Text ''Bad service'', cleaned_text = [], other = 6\<rparr>,
      \<lparr>label = 2, review_text = Text ''ok'', cleaned_text = [], other = 7\<rparr>]"

section \<open>Review annotations\<close>

text \<open>
  The cells of the \<open>aspects\<close> column come from \<open>json.loads\<close> and are not validated, so
  a cell is any JSON value.  A dict is an association list read with \<open>map_of\<close>.
\<close>

datatype json =
    JNull
  | JBool bool
  | JNum rat
  | JStr string
  | JList "json list"
  | JDict "(string \<times> json) list"

datatype py_error = AttributeError | TypeError | KeyError

text \<open>\<open>d.get(key, default)\<close>.\<close>

definition dict_get :: "(string \<times> json) list \<Rightarrow> string \<Rightarrow> json \<Rightarrow> json" where
  "dict_get d key dflt = (case map_of d key of Some v \<Rightarrow> v | None \<Rightarrow> dflt)"

text \<open>\<open>v.lower()\<close>: only a string has the method.\<close>

fun value_lower :: "json \<Rightarrow> py_error + string" where
  "value_lower (JStr s) = Inr (lower s)"
| "value_lower v = Inl AttributeError"

text \<open>The truth value of \<open>if v:\<close>.\<close>

fun truthy :: "json \<Rightarrow> bool" where
  "truthy JNull = False"
| "truthy (JBool b) = b"
| "truthy (JNum n) = (n \<noteq> 0)"
| "truthy (JStr s) = (s \<noteq> [])"
| "truthy (JList xs) = (xs \<noteq> [])"
| "truthy (JDict d) = (d \<noteq> [])"

text \<open>
  A float of the column \<open>sentiment_confidence\<close>: a number, or NaN where the cell of a
  row is missing.  \<open>float_lt\<close> is \<open><\<close> on floats, false whenever a side is NaN.
\<close>

datatype pyfloat = Num rat | NaN

fun float_lt :: "pyfloat \<Rightarrow> pyfloat \<Rightarrow> bool" where
  "float_lt (Num a) (Num b) = (a < b)"
| "float_lt a b = False"

text \<open>
  The frame the aggregator and the ranker read: whether it has the columns \<open>aspects\<close>
  and \<open>sentiment_confidence\<close>, and its rows.
\<close>

record review =
  aspects :: json
  sentiment_confidence :: pyfloat

record frame =
  has_aspects :: bool
  has_confidence :: bool
  reviews :: "review list"

text \<open>A loop whose body may raise: the first exception ends it.\<close>

fun for_each :: "('s \<Rightarrow> 'a \<Rightarrow> py_error + 's) \<Rightarrow> 's \<Rightarrow> 'a list \<Rightarrow> py_error + 's" where
  "for_each body s [] = Inr s"
| "for_each body s (x # xs) =
     (case body s x of Inl e \<Rightarrow> Inl e | Inr s' \<Rightarrow> for_each body s' xs)"

section \<open>Aspect aggregator\<close>

text \<open>
  \<open>aggregate_aspects\<close> of \<open>src/visualizations.py\<close>.  The value of a key of the per-aspect
  dict is a number or the list of quotes; \<open>aspect_stats\<close> is an insertion-ordered dict
  from the aspect's name to that dict.
\<close>

record quote_entry =
  qe_quote :: json
  qe_sentiment :: string

datatype stat = IntV int | QuotesV "quote_entry list"

type_synonym stats = "(string \<times> stat) list"

definition default_stats :: stats where
  "default_stats =
     [(''count'', IntV 0), (''positive'', IntV 0), (''negative'', IntV 0),
      (''neutral'', IntV 0), (''quotes'', QuotesV [])]"

text \<open>\<open>v + 1\<close>: a list plus a number raises \<open>TypeError\<close>.\<close>

fun plus_one :: "stat \<Rightarrow> py_error + stat" where
  "plus_one (IntV n) = Inr (IntV (n + 1))"
| "plus_one (QuotesV qs) = Inl TypeError"

text \<open>\<open>st['count'] += 1\<close>.\<close>

definition bump_count :: "stats \<Rightarrow> py_error + stats" where
  "bump_count st =
     (case map_of st ''count'' of
        None \<Rightarrow> Inl KeyError
      | Some v \<Rightarrow> (case plus_one v of
                    Inl e \<Rightarrow> Inl e
                  | Inr v' \<Rightarrow> Inr (AList.update ''count'' v' st)))"

text \<open>\<open>st[sentiment] = st.get(sentiment, 0) + 1\<close>.\<close>

definition bump_sentiment :: "string \<Rightarrow> stats \<Rightarrow> py_error + stats" where
  "bump_sentiment sentiment st =
     (case plus_one (case map_of st sentiment of Some v \<Rightarrow> v | None \<Rightarrow> IntV 0) of
        Inl e \<Rightarrow> Inl e
      | Inr v' \<Rightarrow> Inr (AList.update sentiment v' st))"

text \<open>\<open>st['quotes'].append(entry)\<close>.\<close>

definition append_quote :: "quote_entry \<Rightarrow> stats \<Rightarrow> py_error + stats" where
  "append_quote entry st =
     (case map_of st ''quotes'' of
        None \<Rightarrow> Inl KeyError
      | Some (IntV n) \<Rightarrow> Inl AttributeError
      | Some (QuotesV qs) \<Rightarrow> Inr (AList.update ''quotes'' (QuotesV (qs @ [entry])) st))"

text \<open>\<open>aspect_stats[name]\<close> on the \<open>defaultdict\<close>.\<close>

definition stats_of :: "(string \<times> stats) list \<Rightarrow> string \<Rightarrow> stats" where
  "stats_of aspect_stats name =
     (case map_of aspect_stats name of Some st \<Rightarrow> st | None \<Rightarrow> default_stats)"

text \<open>The body of the loop over the mentions of one review (lines 155 to 172).\<close>

definition add_mention :: "(string \<times> stats) list \<Rightarrow> json \<Rightarrow> py_error + (string \<times> stats) list" where
  "add_mention aspect_stats aspect =
     (case aspect of
        JDict d \<Rightarrow>
          (case value_lower (dict_get d ''name'' (JStr [])) of
             Inl e \<Rightarrow> Inl e
           | Inr lowered \<Rightarrow>
               let name = strip lowered in
               if name = [] then Inr aspect_stats
               else
                 (case value_lower (dict_get d ''sentiment'' (JStr [])) of
                    Inl e \<Rightarrow> Inl e
                  | Inr sentiment \<Rightarrow>
                      let quote = dict_get d ''quote'' (JStr []) in
                      (case bump_count (stats_of aspect_stats name) of
                         Inl e \<Rightarrow> Inl e
                       | Inr st1 \<Rightarrow>
                           (case bump_sentiment sentiment st1 of
                              Inl e \<Rightarrow> Inl e
                            | Inr st2 \<Rightarrow>
                                if truthy quote then
                                  (case append_quote
                                          \<lparr>qe_quote = quote, qe_sentiment = sentiment\<rparr> st2 of
                                     Inl e \<Rightarrow> Inl e
                                   | Inr st3 \<Rightarrow> Inr (AList.update name st3 aspect_stats))
                                else Inr (AList.update name st2 aspect_stats)))))
      | _ \<Rightarrow> Inr aspect_stats)"

text \<open>The body of the loop over \<open>df['aspects']\<close> (lines 151 to 172).\<close>

definition add_review :: "(string \<times> stats) list \<Rightarrow> review \<Rightarrow> py_error + (string \<times> stats) list" where
  "add_review aspect_stats r =
     (case aspects r of
        JList aspects_list \<Rightarrow> for_each add_mention aspect_stats aspects_list
      | _ \<Rightarrow> Inr aspect_stats)"

record aspect_row =
  name :: string
  count :: int
  positive_count :: int
  negative_count :: int
  neutral_count :: int
  positive_ratio :: rat

text \<open>
  One row of the result (lines 177 to 191).  The four entries read here always hold
  numbers, as only the key \<open>quotes\<close> ever holds a list; a list read here would raise.
\<close>

definition int_stat :: "stats \<Rightarrow> string \<Rightarrow> py_error + int" where
  "int_stat st key =
     (case map_of st key of
        None \<Rightarrow> Inr 0
      | Some (IntV n) \<Rightarrow> Inr n
      | Some (QuotesV qs) \<Rightarrow> Inl TypeError)"

definition make_row :: "string \<times> stats \<Rightarrow> py_error + aspect_row" where
  "make_row item =
     (case map_of (snd item) ''count'' of
        None \<Rightarrow> Inl KeyError
      | Some (QuotesV qs) \<Rightarrow> Inl TypeError
      | Some (IntV total_n) \<Rightarrow>
          (case int_stat (snd item) ''positive'' of
             Inl e \<Rightarrow> Inl e
           | Inr positive \<Rightarrow>
               (case int_stat (snd item) ''negative'' of
                  Inl e \<Rightarrow> Inl e
                | Inr negative \<Rightarrow>
                    (case int_stat (snd item) ''neutral'' of
                       Inl e \<Rightarrow> Inl e
                     | Inr neutral \<Rightarrow>
                         Inr \<lparr>name = fst item, count = total_n,
                              positive_count = positive,
                              negative_count = negative,
                              neutral_count = neutral,
                              positive_ratio =
                                (if total_n > 0 then of_int positive / of_int total_n else 0)\<rparr>))))"

definition make_rows :: "(string \<times> stats) list \<Rightarrow> py_error + aspect_row list" where
  "make_rows aspect_stats =
     for_each (\<lambda>rows item. case make_row item of Inl e \<Rightarrow> Inl e | Inr row \<Rightarrow> Inr (rows @ [row]))
       [] aspect_stats"

text \<open>
  \<open>sort_values('count', ascending=False)\<close>.  The source leaves the order of rows of equal
  count to pandas; the model keeps their insertion order.
\<close>

definition sort_by_count :: "aspect_row list \<Rightarrow> aspect_row list" where
  "sort_by_count rows = sort_key (\<lambda>row. - count row) rows"

definition aggregate_aspects :: "frame \<Rightarrow> py_error + aspect_row list" where
  "aggregate_aspects df =
     (if reviews df = [] \<or> \<not> has_aspects df then Inr []
      else
        (case for_each add_review [] (reviews df) of
           Inl e \<Rightarrow> Inl e
         | Inr aspect_stats \<Rightarrow>
             (case make_rows aspect_stats of
                Inl e \<Rightarrow> Inl e
              | Inr rows \<Rightarrow> Inr (sort_by_count rows))))"

text \<open>
  The invariant of the aggregation: a per-aspect dict holds numbers under its four
  counting keys and a list under \<open>quotes\<close>, and its count is the sum of the three
  sentiment counts.
\<close>

definition balanced :: "stats \<Rightarrow> bool" where
  "balanced st =
     (\<exists>c p n u qs.
        map_of st ''count'' = Some (IntV c) \<and>
        map_of st ''positive'' = Some (IntV p) \<and>
        map_of st ''negative'' = Some (IntV n) \<and>
        map_of st ''neutral'' = Some (IntV u) \<and>
        map_of st ''quotes'' = Some (QuotesV qs) \<and>
        c = p + n + u)"

definition canonical :: "string \<Rightarrow> bool" where
  "canonical s = (s = ''positive'' \<or> s = ''negative'' \<or> s = ''neutral'')"

text \<open>
  The hypothesis on the input: every mention (every dict of a list of mentions) has a
  string under \<open>sentiment\<close> that is one of the three labels once lowercased.
\<close>

definition canonical_mention :: "json \<Rightarrow> bool" where
  "canonical_mention aspect =
     (case aspect of
        JDict d \<Rightarrow> (case map_of d ''sentiment'' of
                      Some (JStr s) \<Rightarrow> canonical (lower s)
                    | _ \<Rightarrow> False)
      | _ \<Rightarrow> True)"

definition canonical_review :: "review \<Rightarrow> bool" where
  "canonical_review r =
     (case aspects r of JList aspects_list \<Rightarrow> list_all canonical_mention aspects_list | _ \<Rightarrow> True)"

definition all_balanced :: "(string \<times> stats) list \<Rightarrow> bool" where
  "all_balanced aspect_stats = (\<forall>(k, st) \<in> set aspect_stats. balanced st)"

text \<open>Frames for concrete inputs.\<close>

definition mention :: "string \<Rightarrow> string \<Rightarrow> string \<Rightarrow> json" where
  "mention n s q = JDict [(''name'', JStr n), (''sentiment'', JStr s), (''quote'', JStr q)]"

definition example_frame :: frame where
  "example_frame =
     \<lparr>has_aspects = True, has_confidence = True,
      reviews =
        [\<lparr>aspects = JList [mention ''food'' ''neutral'' ''n1'', mention ''Food '' ''positive'' ''p1''],
          sentiment_confidence = Num (9 / 10)\<rparr>,
         \<lparr>aspects = JList [mention ''food'' ''neutral'' ''n2'', mention ''food'' ''Neutral'' ''n3'',
                           JNull],
          sentiment_confidence = Num (1 / 2)\<rparr>,
         \<lparr>aspects = JNull, sentiment_confidence = Num (1)\<rparr>,
         \<lparr>aspects = JList [mention ''food'' ''neutral'' ''n4'', mention ''food'' ''negative'' ''p2'',
                           mention ''service'' ''NEGATIVE'' ''s1'', mention ''food'' ''neutral'' ''n5''],
          sentiment_confidence = Num (19 / 20)\<rparr>]\<rparr>"

text \<open>
  Inputs on which neither function raises: the name of a mention is a string or is
  missing, and (for the aggregator) its sentiment is missing or a string other than
  \<open>quotes\<close> once lowercased.
\<close>

definition named_mention :: "json \<Rightarrow> bool" where
  "named_mention aspect =
     (case aspect of
        JDict d \<Rightarrow> (case map_of d ''name'' of
                      None \<Rightarrow> True
                    | Some (JStr s) \<Rightarrow> True
                    | Some _ \<Rightarrow> False)
      | _ \<Rightarrow> True)"

definition labelled_mention :: "json \<Rightarrow> bool" where
  "labelled_mention aspect =
     (case aspect of
        JDict d \<Rightarrow> (case map_of d ''sentiment'' of
                      None \<Rightarrow> True
                    | Some (JStr s) \<Rightarrow> lower s \<noteq> ''quotes''
                    | Some _ \<Rightarrow> False)
      | _ \<Rightarrow> True)"

definition tolerated_review :: "(json \<Rightarrow> bool) \<Rightarrow> review \<Rightarrow> bool" where
  "tolerated_review ok r =
     (case aspects r of JList aspects_list \<Rightarrow> list_all ok aspects_list | _ \<Rightarrow> True)"

text \<open>
  The invariant behind it: only the key \<open>quotes\<close> of a per-aspect dict holds a list.
\<close>

definition well_formed :: "stats \<Rightarrow> bool" where
  "well_formed st =
     ((\<exists>c. map_of st ''count'' = Some (IntV c)) \<and>
      (\<exists>qs. map_of st ''quotes'' = Some (QuotesV qs)) \<and>
      (\<forall>k qs. map_of st k = Some (QuotesV qs) \<longrightarrow> k = ''quotes''))"

definition all_well_formed :: "(string \<times> stats) list \<Rightarrow> bool" where
  "all_well_formed aspect_stats = (\<forall>(k, st) \<in> set aspect_stats. well_formed st)"

section \<open>Quote ranker\<close>

text \<open>\<open>get_top_quotes_for_aspect\<close> of \<open>src/visualizations.py\<close>.\<close>

record ranked_quote =
  quote :: json
  sentiment :: json
  confidence :: pyfloat

text \<open>The body of the loop over the mentions of one row (lines 276 to 289).\<close>

definition collect_mention ::
  "string \<Rightarrow> pyfloat \<Rightarrow> ranked_quote list \<Rightarrow> json \<Rightarrow> py_error + ranked_quote list" where
  "collect_mention aspect_name conf quotes aspect =
     (case aspect of
        JDict d \<Rightarrow>
          (case value_lower (dict_get d ''name'' (JStr [])) of
             Inl e \<Rightarrow> Inl e
           | Inr lowered \<Rightarrow>
               if strip lowered = strip (lower aspect_name) then
                 let q = dict_get d ''quote'' (JStr []);
                     s = dict_get d ''sentiment'' (JStr ''neutral'')
                 in if truthy q
                    then Inr (quotes @ [\<lparr>quote = q, sentiment = s, confidence = conf\<rparr>])
                    else Inr quotes
               else Inr quotes)
      | _ \<Rightarrow> Inr quotes)"

text \<open>
  The body of the loop over \<open>df.iterrows()\<close> (lines 269 to 289): \<open>row.get\<close> gives the
  default when the frame lacks the column.
\<close>

definition collect_review ::
  "frame \<Rightarrow> string \<Rightarrow> ranked_quote list \<Rightarrow> review \<Rightarrow> py_error + ranked_quote list" where
  "collect_review df aspect_name quotes row =
     (case (if has_aspects df then aspects row else JList []) of
        JList aspects_list \<Rightarrow>
          for_each
            (collect_mention aspect_name
               (if has_confidence df then sentiment_confidence row else Num (1 / 2)))
            quotes aspects_list
      | _ \<Rightarrow> Inr quotes)"

definition collect_quotes :: "frame \<Rightarrow> string \<Rightarrow> py_error + ranked_quote list" where
  "collect_quotes df aspect_name = for_each (collect_review df aspect_name) [] (reviews df)"

text \<open>
  \<open>list.sort\<close>, as CPython 3.11 runs it with \<open><\<close> as its only comparison.  The sort takes
  the run the list starts with, an ascending one or a strictly descending one that it
  reverses, and inserts every later element into the sorted part at the place a binary
  search gives.  A list of fewer than 64 elements is sorted exactly so.  A longer one
  is cut into runs that are sorted so and merged, which gives the same list whenever
  \<open><\<close> is a total order on the keys, that is when no key is NaN.
\<close>

fun run_length :: "('a \<Rightarrow> 'a \<Rightarrow> bool) \<Rightarrow> bool \<Rightarrow> 'a list \<Rightarrow> nat" where
  "run_length lt descending (x # y # rest) =
     (if lt y x = descending then Suc (run_length lt descending (y # rest)) else 1)"
| "run_length lt descending [x] = 1"
| "run_length lt descending [] = 0"

function bisect :: "('a \<Rightarrow> 'a \<Rightarrow> bool) \<Rightarrow> 'a \<Rightarrow> 'a list \<Rightarrow> nat \<Rightarrow> nat \<Rightarrow> nat" where
  "bisect lt pivot pre l r =
     (if l < r then
        (let p = l + (r - l) div 2
         in if lt pivot (pre ! p) then bisect lt pivot pre l p
            else bisect lt pivot pre (p + 1) r)
      else l)"
  by pat_completeness auto
termination
  by (relation "measure (\<lambda>(lt, pivot, pre, l, r). r - l)") auto

definition binary_insert :: "('a \<Rightarrow> 'a \<Rightarrow> bool) \<Rightarrow> 'a list \<Rightarrow> 'a \<Rightarrow> 'a list" where
  "binary_insert lt pre pivot =
     (let l = bisect lt pivot pre 0 (length pre) in take l pre @ pivot # drop l pre)"

definition list_sort :: "('a \<Rightarrow> 'a \<Rightarrow> bool) \<Rightarrow> 'a list \<Rightarrow> 'a list" where
  "list_sort lt xs =
     (case xs of
        x # y # rest \<Rightarrow>
          (let descending = lt y x;
               n = run_length lt descending xs;
               run = take n xs
           in foldl (binary_insert lt) (if descending then rev run else run) (drop n xs))
      | _ \<Rightarrow> xs)"

text \<open>
  \<open>quotes.sort(key=lambda x: x['confidence'], reverse=True)\<close>: with \<open>reverse=True\<close> the
  list is reversed, sorted ascending and reversed again.
\<close>

definition sort_by_confidence :: "ranked_quote list \<Rightarrow> ranked_quote list" where
  "sort_by_confidence quotes =
     rev (list_sort (\<lambda>a b. float_lt (confidence a) (confidence b)) (rev quotes))"

text \<open>The slice \<open>xs[:n]\<close>: a negative \<open>n\<close> counts from the end.\<close>

definition slice_to :: "'a list \<Rightarrow> int \<Rightarrow> 'a list" where
  "slice_to xs n = (if 0 \<le> n then take (nat n) xs else take (length xs - nat (- n)) xs)"

definition is_polar :: "ranked_quote \<Rightarrow> bool" where
  "is_polar q = (sentiment q = JStr ''positive'' \<or> sentiment q = JStr ''negative'')"

definition is_neutral :: "ranked_quote \<Rightarrow> bool" where
  "is_neutral q = (sentiment q = JStr ''neutral'')"

text \<open>Lines 292 to 303, on the collected quotes.\<close>

definition select_quotes :: "ranked_quote list \<Rightarrow> int \<Rightarrow> ranked_quote list" where
  "select_quotes quotes top_n =
     (let sorted_quotes = sort_by_confidence quotes;
          positive_negative = filter is_polar sorted_quotes;
          neutral = filter is_neutral sorted_quotes;
          result = slice_to positive_negative top_n;
          result' = (if int (length result) < top_n
                     then result @ slice_to neutral (top_n - int (length result))
                     else result)
      in slice_to result' top_n)"

definition get_top_quotes_for_aspect :: "frame \<Rightarrow> string \<Rightarrow> int \<Rightarrow> py_error + ranked_quote list" where
  "get_top_quotes_for_aspect df aspect_name top_n =
     (case collect_quotes df aspect_name of
        Inl e \<Rightarrow> Inl e
      | Inr quotes \<Rightarrow> Inr (select_quotes quotes top_n))"

text \<open>
  A frame for concrete inputs of the ranker.  For \<open>food\<close> it holds two positive or
  negative quotes, five neutral ones (one of them by a missing sentiment) and one quote
  whose sentiment is \<open>Positive\<close>; for \<open>service\<close> it holds three negative quotes.
\<close>

definition ranker_frame :: frame where
  "ranker_frame =
     \<lparr>has_aspects = True, has_confidence = True,
      reviews =
        [\<lparr>aspects = JList [mention ''food'' ''neutral'' ''n1'', mention ''Food '' ''positive'' ''p1'',
                           mention ''service'' ''negative'' ''s1''],
          sentiment_confidence = Num (9 / 10)\<rparr>,
         \<lparr>aspects = JList [mention ''food'' ''neutral'' ''n2'', mention ''food'' ''Positive'' ''x1'',
                           JNull, JDict [(''name'', JStr ''food''), (''quote'', JStr ''n3'')],
                           mention ''service'' ''negative'' ''s2''],
          sentiment_confidence = Num (1 / 2)\<rparr>,
         \<lparr>aspects = JNull, sentiment_confidence = Num (1)\<rparr>,
         \<lparr>aspects = JList [mention ''food'' ''neutral'' ''n4'', mention ''food'' ''negative'' ''p2'',
                           mention ''service'' ''negative'' ''s3'', mention ''food'' ''neutral'' ''n5''],
          sentiment_confidence = Num (19 / 20)\<rparr>]\<rparr>"


text \<open>No quote is followed by one of higher confidence.\<close>

definition descending :: "ranked_quote list \<Rightarrow> bool" where
  "descending quotes = sorted_wrt (\<lambda>a b. \<not> float_lt (confidence a) (confidence b)) quotes"





section \<open>The duplicate detector keeps first occurrences\<close>

lemma dd_inv_init: "dd_inv ratio threshold texts 0 ([], [])"
  by (simp add: dd_inv_def)

lemma dd_inv_mono: "dd_inv ratio threshold texts k st \<Longrightarrow> k \<le> k' \<Longrightarrow> dd_inv ratio threshold texts k' st"
  unfolding dd_inv_def by fastforce

lemma snoc_split:
  assumes "tr @ [p] = xs @ q # ys"
  shows "(ys = [] \<and> q = p \<and> xs = tr) \<or> (\<exists>ys'. ys = ys' @ [p] \<and> tr = xs @ q # ys')"
proof (cases ys rule: rev_cases)
  case Nil
  with assms show ?thesis by simp
next
  case (snoc ys' y)
  with assms have "tr @ [p] = (xs @ q # ys') @ [y]" by simp
  then have "tr = xs @ q # ys' \<and> p = y" by (simp only: append1_eq_conv)
  with snoc show ?thesis by simp
qed

lemma dd_inv_inner_step:
  assumes inv: "dd_inv ratio threshold texts (Suc i) st"
    and i: "i \<notin> set (fst st)" and ij: "i < j" and jn: "j < length texts"
  shows "dd_inv ratio threshold texts (Suc i) (traced_inner_step ratio threshold texts i st j)
         \<and> i \<notin> set (fst (traced_inner_step ratio threshold texts i st j))"
proof (cases "j \<in> set (fst st)")
  case True
  with inv i show ?thesis by (simp add: traced_inner_step_def)
next
  case False
  obtain rem tr where st: "st = (rem, tr)" by (cases st)
  from inv have all: "distinct rem \<and>
      set rem = {j. \<exists>i. (i, j) \<in> set tr \<and> similar ratio threshold texts i j} \<and>
      (\<forall>(a, b) \<in> set tr. a < b \<and> b < length texts \<and> a < Suc i \<and> a \<notin> set rem) \<and>
      (\<forall>xs a b ys. tr = xs @ (a, b) # ys \<and> similar ratio threshold texts a b \<longrightarrow>
         (\<forall>(c, d) \<in> set ys. c \<noteq> b \<and> d \<noteq> b))"
    unfolding dd_inv_def st fst_conv snd_conv .
  from all have d: "distinct rem" by (elim conjE)
  from all have m: "set rem = {j. \<exists>i. (i, j) \<in> set tr \<and> similar ratio threshold texts i j}"
    by (elim conjE)
  from all have b: "\<forall>(a, b) \<in> set tr. a < b \<and> b < length texts \<and> a < Suc i \<and> a \<notin> set rem"
    by (elim conjE)
  from all have t: "\<forall>xs a b ys. tr = xs @ (a, b) # ys \<and> similar ratio threshold texts a b \<longrightarrow>
         (\<forall>(c, d) \<in> set ys. c \<noteq> b \<and> d \<noteq> b)"
    by (elim conjE)
  from False st have jr: "j \<notin> set rem" by simp
  from i st have ir: "i \<notin> set rem" by simp
  have t': "\<forall>xs a b ys. tr @ [(i, j)] = xs @ (a, b) # ys \<and> similar ratio threshold texts a b \<longrightarrow>
         (\<forall>(c, d) \<in> set ys. c \<noteq> b \<and> d \<noteq> b)"
  proof (intro allI impI, elim conjE)
    fix xs a b ys
    assume eq: "tr @ [(i, j)] = xs @ (a, b) # ys" and s: "similar ratio threshold texts a b"
    from snoc_split[OF eq] show "\<forall>(c, d) \<in> set ys. c \<noteq> b \<and> d \<noteq> b"
    proof (elim disjE conjE exE)
      assume "ys = []" then show ?thesis by simp
    next
      fix ys' assume ys: "ys = ys' @ [(i, j)]" and tr: "tr = xs @ (a, b) # ys'"
      from tr s t have old: "\<forall>(c, d) \<in> set ys'. c \<noteq> b \<and> d \<noteq> b" by blast
      from tr s m have "b \<in> set rem" by auto
      with ir jr have "i \<noteq> b \<and> j \<noteq> b" by auto
      with old ys show ?thesis by auto
    qed
  qed
  show ?thesis
  proof (cases "similar ratio threshold texts i j")
    case True
    have b': "\<forall>(a, b) \<in> set (tr @ [(i, j)]). a < b \<and> b < length texts \<and> a < Suc i \<and> a \<notin> set (rem @ [j])"
      using b ij jn ir by auto
    have m': "set (rem @ [j]) = {b. \<exists>a. (a, b) \<in> set (tr @ [(i, j)]) \<and> similar ratio threshold texts a b}"
      using m True by auto
    have step: "traced_inner_step ratio threshold texts i st j = (rem @ [j], tr @ [(i, j)])"
      using True False st by (simp add: traced_inner_step_def)
    have "distinct (rem @ [j])" using d jr by simp
    moreover have "i \<notin> set (rem @ [j])" using ir ij by simp
    ultimately show ?thesis
      unfolding step dd_inv_def fst_conv snd_conv using b' m' t' by (intro conjI)
  next
    case nsim: False
    have b': "\<forall>(a, b) \<in> set (tr @ [(i, j)]). a < b \<and> b < length texts \<and> a < Suc i \<and> a \<notin> set rem"
      using b ij jn ir by auto
    have m': "set rem = {b. \<exists>a. (a, b) \<in> set (tr @ [(i, j)]) \<and> similar ratio threshold texts a b}"
      using m nsim by auto
    have step: "traced_inner_step ratio threshold texts i st j = (rem, tr @ [(i, j)])"
      using nsim False st by (simp add: traced_inner_step_def)
    show ?thesis
      unfolding step dd_inv_def fst_conv snd_conv using d ir b' m' t' by (intro conjI)
  qed
qed

lemma dd_inv_inner_loop:
  assumes "dd_inv ratio threshold texts (Suc i) st" and "i \<notin> set (fst st)" and "m \<le> length texts"
  shows "dd_inv ratio threshold texts (Suc i)
           (foldl (traced_inner_step ratio threshold texts i) st [Suc i ..< m])
         \<and> i \<notin> set (fst (foldl (traced_inner_step ratio threshold texts i) st [Suc i ..< m]))"
  using assms
proof (induction m)
  case 0
  then show ?case by simp
next
  case (Suc m)
  show ?case
  proof (cases "Suc i \<le> m")
    case True
    from Suc have ih: "dd_inv ratio threshold texts (Suc i)
           (foldl (traced_inner_step ratio threshold texts i) st [Suc i ..< m])
         \<and> i \<notin> set (fst (foldl (traced_inner_step ratio threshold texts i) st [Suc i ..< m]))"
      by simp
    from True Suc.prems have "i < m" "m < length texts" by simp_all
    with ih dd_inv_inner_step show ?thesis using True by simp
  next
    case False
    with Suc.prems show ?thesis by simp
  qed
qed

lemma dd_inv_outer_step:
  assumes "dd_inv ratio threshold texts i st" and "i < length texts"
  shows "dd_inv ratio threshold texts (Suc i) (traced_outer_step ratio threshold texts st i)"
proof -
  from assms(1) have s: "dd_inv ratio threshold texts (Suc i) st"
    by (rule dd_inv_mono) simp
  show ?thesis
  proof (cases "i \<in> set (fst st)")
    case True
    with s show ?thesis by (simp add: traced_outer_step_def)
  next
    case False
    with dd_inv_inner_loop[OF s False, of "length texts"] show ?thesis
      by (simp add: traced_outer_step_def)
  qed
qed

lemma dd_inv_outer_loop:
  "m \<le> length texts \<Longrightarrow>
   dd_inv ratio threshold texts m (foldl (traced_outer_step ratio threshold texts) ([], []) [0 ..< m])"
proof (induction m)
  case 0
  then show ?case by (simp add: dd_inv_init)
next
  case (Suc m)
  then show ?case using dd_inv_outer_step[of ratio threshold texts m] by simp
qed

lemma dd_inv_run: "dd_inv ratio threshold texts (length texts) (traced_run ratio threshold texts)"
  unfolding traced_run_def by (rule dd_inv_outer_loop) simp

lemma fst_traced_inner_step:
  "fst (traced_inner_step ratio threshold texts i st j) = inner_step ratio threshold texts i (fst st) j"
  by (simp add: traced_inner_step_def inner_step_def)

lemma fst_traced_inner_loop:
  "fst (foldl (traced_inner_step ratio threshold texts i) st js)
     = foldl (inner_step ratio threshold texts i) (fst st) js"
  by (induction js arbitrary: st) (simp_all add: fst_traced_inner_step)

lemma fst_traced_outer_step:
  "fst (traced_outer_step ratio threshold texts st i) = outer_step ratio threshold texts (fst st) i"
  by (simp add: traced_outer_step_def outer_step_def fst_traced_inner_loop)

lemma fst_traced_outer_loop:
  "fst (foldl (traced_outer_step ratio threshold texts) st is)
     = foldl (outer_step ratio threshold texts) (fst st) is"
  by (induction "is" arbitrary: st) (simp_all add: fst_traced_outer_step)

lemma fst_traced_run: "fst (traced_run ratio threshold texts) = marked ratio threshold texts"
  by (simp add: traced_run_def marked_def fst_traced_outer_loop)

text \<open>
  C1.  The list \<open>find_duplicates\<close> returns is sorted, has no repetition, never holds
  index 0 and holds only indices of \<open>texts\<close>.  Every returned \<open>j\<close> was marked by a
  comparison with an earlier index \<open>i\<close> that is itself not returned.  Every comparison
  made has a source before its target and a source that is never marked.  After the
  comparison that marks \<open>j\<close>, no comparison has \<open>j\<close> as its source or as its target.
\<close>

theorem find_duplicates_first_occurrence_wins:
  "sorted (find_duplicates ratio texts threshold) \<and>
   distinct (find_duplicates ratio texts threshold) \<and>
   0 \<notin> set (find_duplicates ratio texts threshold) \<and>
   (\<forall>j \<in> set (find_duplicates ratio texts threshold). j < length texts \<and>
      (\<exists>i<j. i \<notin> set (find_duplicates ratio texts threshold) \<and>
         (i, j) \<in> set (comparisons ratio texts threshold) \<and>
         similar ratio threshold texts i j)) \<and>
   (\<forall>(i, j) \<in> set (comparisons ratio texts threshold).
      i < j \<and> j < length texts \<and> i \<notin> set (find_duplicates ratio texts threshold) \<and>
      (similar ratio threshold texts i j \<longrightarrow> j \<in> set (find_duplicates ratio texts threshold))) \<and>
   (\<forall>xs i j ys.
      comparisons ratio texts threshold = xs @ (i, j) # ys \<and> similar ratio threshold texts i j \<longrightarrow>
      (\<forall>(a, b) \<in> set ys. a \<noteq> j \<and> b \<noteq> j))"
proof -
  let ?res = "find_duplicates ratio texts threshold"
  let ?cmp = "comparisons ratio texts threshold"
  let ?rem = "marked ratio threshold texts"
  have inv: "dd_inv ratio threshold texts (length texts) (?rem, ?cmp)"
  proof -
    have "traced_run ratio threshold texts = (?rem, ?cmp)"
      by (simp add: prod_eq_iff fst_traced_run comparisons_def)
    with dd_inv_run[of ratio threshold texts] show ?thesis by simp
  qed
  have set_res: "set ?res = set ?rem"
    by (simp add: find_duplicates_def)
  from inv have m: "set ?rem = {j. \<exists>i. (i, j) \<in> set ?cmp \<and> similar ratio threshold texts i j}"
    unfolding dd_inv_def fst_conv snd_conv by (elim conjE)
  from inv have b: "\<forall>(i, j) \<in> set ?cmp. i < j \<and> j < length texts \<and> i < length texts \<and> i \<notin> set ?rem"
    unfolding dd_inv_def fst_conv snd_conv by (elim conjE)
  from inv have t: "\<forall>xs i j ys. ?cmp = xs @ (i, j) # ys \<and> similar ratio threshold texts i j \<longrightarrow>
      (\<forall>(a, b) \<in> set ys. a \<noteq> j \<and> b \<noteq> j)"
    unfolding dd_inv_def fst_conv snd_conv by (elim conjE)
  have c1: "sorted ?res" by (simp add: find_duplicates_def)
  have c2: "distinct ?res" by (simp add: find_duplicates_def)
  have c4: "\<forall>j \<in> set ?res. j < length texts \<and>
      (\<exists>i<j. i \<notin> set ?res \<and> (i, j) \<in> set ?cmp \<and> similar ratio threshold texts i j)"
  proof
    fix j assume "j \<in> set ?res"
    with set_res m obtain i where ij: "(i, j) \<in> set ?cmp" and s: "similar ratio threshold texts i j"
      by auto
    from b ij have "i < j" "j < length texts" "i \<notin> set ?rem" by auto
    with ij s set_res show "j < length texts \<and>
      (\<exists>i<j. i \<notin> set ?res \<and> (i, j) \<in> set ?cmp \<and> similar ratio threshold texts i j)"
      by auto
  qed
  have c3: "0 \<notin> set ?res" using c4 by auto
  have c5: "\<forall>(i, j) \<in> set ?cmp. i < j \<and> j < length texts \<and> i \<notin> set ?res \<and>
      (similar ratio threshold texts i j \<longrightarrow> j \<in> set ?res)"
    using b m set_res by auto
  from c1 c2 c3 c4 c5 t show ?thesis by (intro conjI)
qed

text \<open>The four texts \<open>a, A, b, B\<close>: indices 1 and 3 are removed, 0 and 2 are kept.\<close>

lemma ex_fd: "find_duplicates exact_ratio [''a'', ''A'', ''b'', ''B''] 100 = [1, 3]"
  by code_simp
lemma ex_cmp: "comparisons exact_ratio [''a'', ''A'', ''b'', ''B''] 100 = [(0, 1), (0, 2), (0, 3), (2, 3)]"
  by code_simp
lemma ex_sim: "similar exact_ratio 100 [''a'', ''A'', ''b'', ''B''] 0 1"
  by code_simp

theorem find_duplicates_first_occurrence_wins_witness:
  "find_duplicates exact_ratio [''a'', ''A'', ''b'', ''B''] 100 = [1, 3] \<and>
   comparisons exact_ratio [''a'', ''A'', ''b'', ''B''] 100 = [(0, 1), (0, 2), (0, 3), (2, 3)] \<and>
   (\<exists>i<1. i \<notin> set (find_duplicates exact_ratio [''a'', ''A'', ''b'', ''B''] 100) \<and>
       (i, 1) \<in> set (comparisons exact_ratio [''a'', ''A'', ''b'', ''B''] 100) \<and>
       similar exact_ratio 100 [''a'', ''A'', ''b'', ''B''] i 1) \<and>
   similar exact_ratio 100 [''a'', ''A'', ''b'', ''B''] 0 1 \<and>
   1 \<notin> set (map fst (drop 1 (comparisons exact_ratio [''a'', ''A'', ''b'', ''B''] 100))) \<and>
   1 \<notin> set (map snd (drop 1 (comparisons exact_ratio [''a'', ''A'', ''b'', ''B''] 100)))"
proof -
  let ?T = "[''a'', ''A'', ''b'', ''B'']"
  note main = find_duplicates_first_occurrence_wins [of exact_ratio ?T 100]
  have mem: "1 \<in> set (find_duplicates exact_ratio ?T 100)"
    by (simp add: ex_fd)
  from main mem have w1: "\<exists>i<1. i \<notin> set (find_duplicates exact_ratio ?T 100) \<and>
       (i, 1) \<in> set (comparisons exact_ratio ?T 100) \<and> similar exact_ratio 100 ?T i 1"
    by blast
  have split: "comparisons exact_ratio ?T 100 = [] @ (0, 1) # [(0, 2), (0, 3), (2, 3)]"
    by (simp add: ex_cmp)
  from main split ex_sim
  have w2: "\<forall>(a, b) \<in> set [(0, 2), (0, 3), (2, 3)]. a \<noteq> (1::nat) \<and> b \<noteq> (1::nat)"
    by blast
  from w2 have w3: "1 \<notin> set (map fst (drop 1 (comparisons exact_ratio ?T 100))) \<and>
      1 \<notin> set (map snd (drop 1 (comparisons exact_ratio ?T 100)))"
    unfolding ex_cmp by auto
  from w1 w3 ex_fd ex_cmp ex_sim show ?thesis by (intro conjI) simp_all
qed

section \<open>The pipeline removes rows and keeps their order\<close>

lemma label_reset_index: "map label (reset_index df) = map int [0 ..< length df]"
  by (rule nth_equalityI) (simp_all add: reset_index_def nth_enumerate_eq)

lemma origin_reset_index: "map origin (reset_index df) = map origin df"
  by (rule nth_equalityI) (simp_all add: reset_index_def nth_enumerate_eq origin_def)

lemma length_reset_index: "length (reset_index df) = length df"
  by (simp add: reset_index_def)

lemma subseq_origin_filter: "subseq (map origin (filter P df)) (map origin df)"
  by (simp add: subseq_map)

lemma subseq_english_stage:
  "subseq (map origin (snd (english_stage detect flag df))) (map origin df)"
  by (simp add: english_stage_def Let_def subseq_origin_filter)

lemma subseq_duplicate_stage:
  "subseq (map origin (snd (duplicate_stage ratio flag threshold df))) (map origin df)"
  by (simp add: duplicate_stage_def Let_def origin_reset_index drop_labels_def subseq_origin_filter)

lemma origin_cleaned:
  "map origin (map (\<lambda>r. r\<lparr>cleaned_text := f r\<rparr>) df) = map origin df"
  by (simp add: origin_def)

lemma subseq_preprocess:
  "subseq (map origin (snd (preprocess_reviews detect ratio df rd fe th))) (map origin df)"
proof -
  let ?cleaned = "map (\<lambda>r. r\<lparr>cleaned_text := clean_text (review_text r)\<rparr>) df"
  let ?nonempty = "filter (\<lambda>r. length (cleaned_text r) > 0) ?cleaned"
  let ?english = "snd (english_stage detect fe ?nonempty)"
  let ?dedup = "snd (duplicate_stage ratio rd th ?english)"
  have a: "subseq (map origin ?nonempty) (map origin df)"
    using subseq_origin_filter[of "\<lambda>r. length (cleaned_text r) > 0" ?cleaned]
    by (simp only: origin_cleaned)
  have b: "subseq (map origin ?english) (map origin df)"
    using subseq_english_stage a by (rule subseq_order.order_trans)
  have c: "subseq (map origin ?dedup) (map origin df)"
    using subseq_duplicate_stage b by (rule subseq_order.order_trans)
  have d: "subseq (map origin (reset_index ?dedup)) (map origin df)"
    using c by (simp only: origin_reset_index)
  show ?thesis
    using a b d
    by (simp add: preprocess_reviews_def Let_def case_prod_unfold)
qed

lemma labels_preprocess:
  "map label (snd (preprocess_reviews detect ratio df rd fe th))
     = map int [0 ..< length (snd (preprocess_reviews detect ratio df rd fe th))]"
  by (simp add: preprocess_reviews_def Let_def case_prod_unfold label_reset_index length_reset_index)

text \<open>
  C3.  Whatever the two flags and the threshold, \<open>preprocess_reviews\<close> returns at most
  as many rows as it was given, the rows it returns are a subsequence of the input (by
  their text and other columns), and their labels are 0, 1, 2, ... in order.
\<close>

theorem preprocess_reviews_shrinks_in_order:
  "length (snd (preprocess_reviews detect ratio df remove_duplicates filter_english dedup_threshold))
     \<le> length df \<and>
   subseq
     (map origin (snd (preprocess_reviews detect ratio df remove_duplicates filter_english dedup_threshold)))
     (map origin df) \<and>
   map label (snd (preprocess_reviews detect ratio df remove_duplicates filter_english dedup_threshold))
     = map int [0 ..< length (snd (preprocess_reviews detect ratio df remove_duplicates
                                      filter_english dedup_threshold))]"
proof -
  let ?out = "snd (preprocess_reviews detect ratio df remove_duplicates filter_english dedup_threshold)"
  have s: "subseq (map origin ?out) (map origin df)" by (rule subseq_preprocess)
  from list_emb_length[OF s] have "length ?out \<le> length df" by simp
  with s labels_preprocess show ?thesis by blast
qed

lemma example_preprocess:
  "snd (preprocess_reviews example_detect exact_ratio example_rows True True 85) =
     [\<lparr>label = 0, review_text = Text ''<p>Great food!</p>'', cleaned_text = ''Great food!'', other = 0\<rparr>,
      \<lparr>label = 1, review_text = Text ''???'', cleaned_text = ''???'', other = 5\<rparr>,
      \<lparr>label = 2, review_text = Text ''Bad service'', cleaned_text = ''Bad service'', other = 6\<rparr>]"
  by code_simp

theorem preprocess_reviews_shrinks_in_order_witness:
  "length (snd (preprocess_reviews example_detect exact_ratio example_rows True True 85)) = 3 \<and>
   3 \<le> length example_rows \<and>
   subseq [(Text ''<p>Great food!</p>'', 0), (Text ''???'', 5), (Text ''Bad service'', 6)]
     (map origin example_rows) \<and>
   map label (snd (preprocess_reviews example_detect exact_ratio example_rows True True 85))
     = [0, 1, 2]"
  using preprocess_reviews_shrinks_in_order [of example_detect exact_ratio example_rows True True 85]
  by (simp add: example_preprocess origin_def upt_rec)

section \<open>The aggregator's counts\<close>

lemma for_each_invariant:
  assumes "for_each body s xs = Inr s'" and "P s"
    and "\<And>t x t'. P t \<Longrightarrow> x \<in> set xs \<Longrightarrow> body t x = Inr t' \<Longrightarrow> P t'"
  shows "P s'"
  using assms
proof (induction xs arbitrary: s)
  case Nil
  then show ?case by simp
next
  case (Cons x xs)
  from Cons.prems(1) obtain t where t: "body s x = Inr t" and rest: "for_each body t xs = Inr s'"
    by (auto split: sum.splits)
  from Cons.prems(2) t have "P t" by (rule Cons.prems(3)[where x = x, simplified])
  with rest show ?case
    by (rule Cons.IH) (use Cons.prems(3) in auto)
qed

lemma set_update_subset: "set (AList.update k v al) \<subseteq> insert (k, v) (set al)"
  by (induction al) auto

lemma balanced_default: "balanced default_stats"
  by (simp add: balanced_def default_stats_def)

lemma balanced_stats_of:
  "\<forall>(k, st) \<in> set aspect_stats. balanced st \<Longrightarrow> balanced (stats_of aspect_stats nm)"
  by (auto simp: stats_of_def balanced_default split: option.splits dest: map_of_SomeD)

lemma balanced_bump:
  assumes "balanced st" and "canonical s"
    and "bump_count st = Inr st1" and "bump_sentiment s st1 = Inr st2"
  shows "balanced st2"
  using assms
  unfolding balanced_def canonical_def bump_count_def bump_sentiment_def
  by (elim exE conjE disjE) (auto simp: update_conv' split: option.splits sum.splits)

lemma balanced_append_quote:
  assumes "balanced st" and "append_quote e st = Inr st'"
  shows "balanced st'"
  using assms
  unfolding balanced_def append_quote_def
  by (elim exE conjE) (auto simp: update_conv' split: option.splits)


lemma all_balanced_update:
  "all_balanced aspect_stats \<Longrightarrow> balanced st \<Longrightarrow> all_balanced (AList.update nm st aspect_stats)"
  using set_update_subset[of nm st aspect_stats] by (auto simp: all_balanced_def)

lemma canonical_mention_sentiment:
  assumes "canonical_mention (JDict d)"
    and "value_lower (dict_get d ''sentiment'' (JStr [])) = Inr s"
  shows "canonical s"
  using assms
  by (auto simp: canonical_mention_def dict_get_def split: option.splits json.splits)

lemma add_mention_balanced:
  assumes inv: "all_balanced aspect_stats" and can: "canonical_mention aspect"
    and step: "add_mention aspect_stats aspect = Inr aspect_stats'"
  shows "all_balanced aspect_stats'"
proof (cases aspect)
  case (JDict d)
  show ?thesis
  proof (cases "value_lower (dict_get d ''name'' (JStr []))")
    case (Inl e)
    with step JDict show ?thesis by (simp add: add_mention_def)
  next
    case (Inr lowered)
    show ?thesis
    proof (cases "strip lowered = []")
      case True
      with step JDict Inr inv show ?thesis by (simp add: add_mention_def)
    next
      case False
      let ?st0 = "stats_of aspect_stats (strip lowered)"
      from step JDict Inr False obtain s st1 st2
        where s: "value_lower (dict_get d ''sentiment'' (JStr [])) = Inr s"
          and b1: "bump_count ?st0 = Inr st1"
          and b2: "bump_sentiment s st1 = Inr st2"
          and fin: "(if truthy (dict_get d ''quote'' (JStr []))
                     then (case append_quote \<lparr>qe_quote = dict_get d ''quote'' (JStr []), qe_sentiment = s\<rparr> st2 of
                             Inl e \<Rightarrow> Inl e
                           | Inr st3 \<Rightarrow> Inr (AList.update (strip lowered) st3 aspect_stats))
                     else Inr (AList.update (strip lowered) st2 aspect_stats)) = Inr aspect_stats'"
        by (auto simp: add_mention_def Let_def split: sum.splits)
      from can JDict s have cs: "canonical s" by (simp add: canonical_mention_sentiment)
      from inv have "balanced ?st0" unfolding all_balanced_def by (rule balanced_stats_of)
      from this cs b1 b2 have bal2: "balanced st2" by (rule balanced_bump)
      show ?thesis
      proof (cases "truthy (dict_get d ''quote'' (JStr []))")
        case True
        with fin obtain st3
          where a: "append_quote \<lparr>qe_quote = dict_get d ''quote'' (JStr []), qe_sentiment = s\<rparr> st2 = Inr st3"
            and r: "aspect_stats' = AList.update (strip lowered) st3 aspect_stats"
          by (auto split: sum.splits)
        from bal2 a have "balanced st3" by (rule balanced_append_quote)
        with inv r show ?thesis by (simp add: all_balanced_update)
      next
        case nq: False
        with fin have "aspect_stats' = AList.update (strip lowered) st2 aspect_stats" by simp
        with inv bal2 show ?thesis by (simp add: all_balanced_update)
      qed
    qed
  qed
qed (use step inv in \<open>simp_all add: add_mention_def\<close>)

lemma add_review_balanced:
  assumes inv: "all_balanced aspect_stats" and can: "canonical_review r"
    and step: "add_review aspect_stats r = Inr aspect_stats'"
  shows "all_balanced aspect_stats'"
proof (cases "aspects r")
  case (JList aspects_list)
  with step have run: "for_each add_mention aspect_stats aspects_list = Inr aspect_stats'"
    by (simp add: add_review_def)
  from can JList have all: "\<forall>a \<in> set aspects_list. canonical_mention a"
    by (simp add: canonical_review_def list_all_iff)
  from run inv show ?thesis
    by (rule for_each_invariant) (use all add_mention_balanced in blast)
qed (use step inv in \<open>simp_all add: add_review_def\<close>)

lemma make_row_balanced:
  assumes "balanced (snd item)" and "make_row item = Inr row"
  shows "count row = positive_count row + negative_count row + neutral_count row"
  using assms unfolding balanced_def make_row_def int_stat_def
  by (elim exE conjE) auto

lemma make_rows_balanced:
  assumes "all_balanced aspect_stats" and "make_rows aspect_stats = Inr rows"
  shows "\<forall>row \<in> set rows. count row = positive_count row + negative_count row + neutral_count row"
proof -
  let ?ok = "\<lambda>rows. \<forall>row \<in> set rows.
      count row = positive_count row + negative_count row + neutral_count row"
  from assms(2) have run: "for_each (\<lambda>rows item. case make_row item of Inl e \<Rightarrow> Inl e
      | Inr row \<Rightarrow> Inr (rows @ [row])) [] aspect_stats = Inr rows"
    by (simp add: make_rows_def)
  have start: "?ok []" by simp
  from run start show ?thesis
  proof (rule for_each_invariant)
    fix t :: "aspect_row list" and x t'
    assume ok: "?ok t" and mem: "x \<in> set aspect_stats"
      and step: "(case make_row x of Inl e \<Rightarrow> Inl e | Inr row \<Rightarrow> Inr (t @ [row])) = Inr t'"
    from step obtain row where row: "make_row x = Inr row" and t': "t' = t @ [row]"
      by (auto split: sum.splits)
    from assms(1) mem have "balanced (snd x)" by (auto simp: all_balanced_def)
    from this row have "count row = positive_count row + negative_count row + neutral_count row"
      by (rule make_row_balanced)
    with ok t' show "?ok t'" by simp
  qed
qed

text \<open>
  C4.  When every mention's sentiment, lowercased, is \<open>positive\<close>, \<open>negative\<close> or
  \<open>neutral\<close>, every row \<open>aggregate_aspects\<close> returns has a count equal to the sum of its
  positive, negative and neutral counts.
\<close>

theorem aggregate_aspects_counts_add_up:
  assumes "\<forall>r \<in> set (reviews df). canonical_review r"
    and "aggregate_aspects df = Inr rows"
  shows "\<forall>row \<in> set rows. count row = positive_count row + negative_count row + neutral_count row"
proof (cases "reviews df = [] \<or> \<not> has_aspects df")
  case True
  with assms(2) show ?thesis by (auto simp: aggregate_aspects_def)
next
  case False
  with assms(2) obtain aspect_stats unsorted
    where run: "for_each add_review [] (reviews df) = Inr aspect_stats"
      and mk: "make_rows aspect_stats = Inr unsorted"
      and rows: "rows = sort_by_count unsorted"
    by (auto simp: aggregate_aspects_def split: sum.splits)
  have start: "all_balanced []" by (simp add: all_balanced_def)
  from run start have "all_balanced aspect_stats"
    by (rule for_each_invariant) (use assms(1) add_review_balanced in blast)
  from this mk have "\<forall>row \<in> set unsorted.
      count row = positive_count row + negative_count row + neutral_count row"
    by (rule make_rows_balanced)
  with rows show ?thesis by (simp add: sort_by_count_def)
qed


lemma example_frame_canonical: "\<forall>r \<in> set (reviews example_frame). canonical_review r"
  by code_simp

lemma example_frame_rows:
  "aggregate_aspects example_frame =
     Inr [\<lparr>name = ''food'', count = 7, positive_count = 1, negative_count = 1,
            neutral_count = 5, positive_ratio = 1 / 7\<rparr>,
          \<lparr>name = ''service'', count = 1, positive_count = 0, negative_count = 1,
            neutral_count = 0, positive_ratio = 0\<rparr>]"
  by code_simp

theorem aggregate_aspects_counts_add_up_witness:
  "list_all canonical_review (reviews example_frame) \<and>
   aggregate_aspects example_frame =
     Inr [\<lparr>name = ''food'', count = 7, positive_count = 1, negative_count = 1,
            neutral_count = 5, positive_ratio = 1 / 7\<rparr>,
          \<lparr>name = ''service'', count = 1, positive_count = 0, negative_count = 1,
            neutral_count = 0, positive_ratio = 0\<rparr>] \<and>
   list_all (\<lambda>row. count row = positive_count row + negative_count row + neutral_count row)
     [\<lparr>name = ''food'', count = 7, positive_count = 1, negative_count = 1,
        neutral_count = 5, positive_ratio = 1 / 7\<rparr>,
      \<lparr>name = ''service'', count = 1, positive_count = 0, negative_count = 1,
        neutral_count = 0, positive_ratio = 0\<rparr>]"
  using aggregate_aspects_counts_add_up [OF example_frame_canonical example_frame_rows]
    example_frame_canonical example_frame_rows
  unfolding list_all_iff by (intro conjI)

section \<open>Malformed mentions\<close>

lemma for_each_total:
  assumes "P s"
    and "\<And>t x. P t \<Longrightarrow> x \<in> set xs \<Longrightarrow> \<exists>t'. body t x = Inr t' \<and> P t'"
  shows "\<exists>s'. for_each body s xs = Inr s' \<and> P s'"
  using assms
proof (induction xs arbitrary: s)
  case Nil
  then show ?case by simp
next
  case (Cons x xs)
  from Cons.prems obtain t where t: "body s x = Inr t" and pt: "P t" by fastforce
  from Cons.IH[OF pt] Cons.prems(2) obtain s' where "for_each body t xs = Inr s' \<and> P s'"
    by fastforce
  with t show ?case by simp
qed

lemma named_mention_lower:
  assumes "named_mention (JDict d)"
  shows "\<exists>lowered. value_lower (dict_get d ''name'' (JStr [])) = Inr lowered"
proof (cases "map_of d ''name''")
  case None
  then show ?thesis by (simp add: dict_get_def)
next
  case (Some v)
  with assms show ?thesis
    by (cases v) (simp_all add: named_mention_def dict_get_def)
qed

lemma labelled_mention_lower:
  assumes "labelled_mention (JDict d)"
  shows "\<exists>s. value_lower (dict_get d ''sentiment'' (JStr [])) = Inr s \<and> s \<noteq> ''quotes''"
proof (cases "map_of d ''sentiment''")
  case None
  then show ?thesis by (simp add: dict_get_def lower_def)
next
  case (Some v)
  with assms show ?thesis
    by (cases v) (simp_all add: labelled_mention_def dict_get_def)
qed

lemma collect_mention_total:
  assumes "named_mention aspect"
  shows "\<exists>quotes'. collect_mention aspect_name conf quotes aspect = Inr quotes'"
proof (cases aspect)
  case (JDict d)
  with assms named_mention_lower obtain lowered
    where "value_lower (dict_get d ''name'' (JStr [])) = Inr lowered" by blast
  with JDict show ?thesis by (simp add: collect_mention_def Let_def)
qed (simp_all add: collect_mention_def)

lemma collect_review_total:
  assumes "tolerated_review named_mention r"
  shows "\<exists>quotes'. collect_review df aspect_name quotes r = Inr quotes'"
proof (cases "if has_aspects df then aspects r else JList []")
  case (JList aspects_list)
  from assms JList have all: "\<forall>a \<in> set aspects_list. named_mention a"
    by (auto simp: tolerated_review_def list_all_iff split: if_splits)
  have "\<exists>s'. for_each (collect_mention aspect_name
               (if has_confidence df then sentiment_confidence r else Num (1 / 2))) quotes aspects_list
           = Inr s' \<and> True"
    by (rule for_each_total) (use all collect_mention_total in auto)
  with JList show ?thesis by (simp add: collect_review_def)
qed (simp_all add: collect_review_def)

lemma ranker_total:
  assumes "\<forall>r \<in> set (reviews df). tolerated_review named_mention r"
  shows "\<exists>result. get_top_quotes_for_aspect df aspect_name top_n = Inr result"
proof -
  have "\<exists>s'. for_each (collect_review df aspect_name) [] (reviews df) = Inr s' \<and> True"
    by (rule for_each_total) (use assms collect_review_total in auto)
  then show ?thesis
    by (auto simp: get_top_quotes_for_aspect_def collect_quotes_def)
qed

lemma well_formed_default: "well_formed default_stats"
  by (simp add: well_formed_def default_stats_def)

lemma well_formed_bump_count:
  assumes "well_formed st"
  shows "\<exists>st'. bump_count st = Inr st' \<and> well_formed st'"
  using assms unfolding well_formed_def bump_count_def
  by (auto simp: update_conv')

lemma well_formed_bump_sentiment:
  assumes "well_formed st" and "s \<noteq> ''quotes''"
  shows "\<exists>st'. bump_sentiment s st = Inr st' \<and> well_formed st'"
proof (cases "map_of st s")
  case None
  with assms show ?thesis
    unfolding well_formed_def bump_sentiment_def by (auto simp: update_conv')
next
  case (Some v)
  with assms obtain n where "v = IntV n"
    unfolding well_formed_def by (cases v) auto
  with Some assms show ?thesis
    unfolding well_formed_def bump_sentiment_def by (auto simp: update_conv')
qed

lemma well_formed_append_quote:
  assumes "well_formed st"
  shows "\<exists>st'. append_quote e st = Inr st' \<and> well_formed st'"
  using assms unfolding well_formed_def append_quote_def
  by (auto simp: update_conv')

lemma well_formed_stats_of:
  "all_well_formed aspect_stats \<Longrightarrow> well_formed (stats_of aspect_stats nm)"
  by (auto simp: all_well_formed_def stats_of_def well_formed_default
      split: option.splits dest: map_of_SomeD)

lemma all_well_formed_update:
  "all_well_formed aspect_stats \<Longrightarrow> well_formed st \<Longrightarrow>
   all_well_formed (AList.update nm st aspect_stats)"
  using set_update_subset[of nm st aspect_stats] by (auto simp: all_well_formed_def)

lemma add_mention_total:
  assumes inv: "all_well_formed aspect_stats"
    and nm: "named_mention aspect" and lb: "labelled_mention aspect"
  shows "\<exists>aspect_stats'. add_mention aspect_stats aspect = Inr aspect_stats' \<and>
           all_well_formed aspect_stats'"
proof (cases aspect)
  case (JDict d)
  from nm JDict named_mention_lower obtain lowered
    where low: "value_lower (dict_get d ''name'' (JStr [])) = Inr lowered" by blast
  from lb JDict labelled_mention_lower obtain s
    where s: "value_lower (dict_get d ''sentiment'' (JStr [])) = Inr s"
      and sq: "s \<noteq> ''quotes''" by blast
  show ?thesis
  proof (cases "strip lowered = []")
    case True
    with JDict low inv show ?thesis by (simp add: add_mention_def)
  next
    case False
    from inv have "well_formed (stats_of aspect_stats (strip lowered))"
      by (rule well_formed_stats_of)
    then obtain st1 where b1: "bump_count (stats_of aspect_stats (strip lowered)) = Inr st1"
      and w1: "well_formed st1"
      using well_formed_bump_count by blast
    from w1 sq obtain st2 where b2: "bump_sentiment s st1 = Inr st2" and w2: "well_formed st2"
      using well_formed_bump_sentiment by blast
    from w2 obtain st3
      where b3: "append_quote \<lparr>qe_quote = dict_get d ''quote'' (JStr []), qe_sentiment = s\<rparr> st2
                   = Inr st3"
        and w3: "well_formed st3"
      using well_formed_append_quote by blast
    from JDict low s False b1 b2 b3 inv w2 w3 show ?thesis
      by (simp add: add_mention_def Let_def all_well_formed_update)
  qed
qed (use inv in \<open>simp_all add: add_mention_def\<close>)

lemma add_review_total:
  assumes inv: "all_well_formed aspect_stats"
    and nm: "tolerated_review named_mention r" and lb: "tolerated_review labelled_mention r"
  shows "\<exists>aspect_stats'. add_review aspect_stats r = Inr aspect_stats' \<and>
           all_well_formed aspect_stats'"
proof (cases "aspects r")
  case (JList aspects_list)
  from nm lb JList have all: "\<forall>a \<in> set aspects_list. named_mention a \<and> labelled_mention a"
    by (auto simp: tolerated_review_def list_all_iff)
  have "\<exists>s'. for_each add_mention aspect_stats aspects_list = Inr s' \<and> all_well_formed s'"
    using inv by (rule for_each_total) (use all add_mention_total in blast)
  with JList show ?thesis by (simp add: add_review_def)
qed (use inv in \<open>simp_all add: add_review_def\<close>)

lemma make_row_total:
  assumes "well_formed (snd item)"
  shows "\<exists>row. make_row item = Inr row"
proof -
  have int: "\<exists>n. int_stat (snd item) k = Inr n" if "k \<noteq> ''quotes''" for k
  proof (cases "map_of (snd item) k")
    case None
    then show ?thesis by (simp add: int_stat_def)
  next
    case (Some v)
    with assms that show ?thesis
      unfolding well_formed_def int_stat_def by (cases v) auto
  qed
  from assms obtain c where c: "map_of (snd item) ''count'' = Some (IntV c)"
    unfolding well_formed_def by blast
  from int[of "''positive''"] int[of "''negative''"] int[of "''neutral''"]
  obtain p n u where "int_stat (snd item) ''positive'' = Inr p"
    "int_stat (snd item) ''negative'' = Inr n" "int_stat (snd item) ''neutral'' = Inr u"
    by auto
  with c show ?thesis by (simp add: make_row_def)
qed

lemma make_rows_total:
  assumes "all_well_formed aspect_stats"
  shows "\<exists>rows. make_rows aspect_stats = Inr rows"
proof -
  have "\<exists>s'. for_each (\<lambda>rows item. case make_row item of Inl e \<Rightarrow> Inl e
      | Inr row \<Rightarrow> Inr (rows @ [row])) [] aspect_stats = Inr s' \<and> True"
  proof (rule for_each_total)
    fix t :: "aspect_row list" and x
    assume "x \<in> set aspect_stats"
    with assms have "well_formed (snd x)" by (auto simp: all_well_formed_def)
    from make_row_total[OF this] obtain row where "make_row x = Inr row" ..
    then show "\<exists>t'. (case make_row x of Inl e \<Rightarrow> Inl e | Inr row \<Rightarrow> Inr (t @ [row])) = Inr t' \<and> True"
      by simp
  qed simp
  then show ?thesis by (auto simp: make_rows_def)
qed

lemma aggregator_total:
  assumes "\<forall>r \<in> set (reviews df). tolerated_review named_mention r"
    and "\<forall>r \<in> set (reviews df). tolerated_review labelled_mention r"
  shows "\<exists>rows. aggregate_aspects df = Inr rows"
proof -
  have start: "all_well_formed []" by (simp add: all_well_formed_def)
  have "\<exists>s'. for_each add_review [] (reviews df) = Inr s' \<and> all_well_formed s'"
    using start by (rule for_each_total) (use assms add_review_total in blast)
  then obtain aspect_stats where run: "for_each add_review [] (reviews df) = Inr aspect_stats"
    and wf: "all_well_formed aspect_stats" by blast
  from make_rows_total[OF wf] obtain rows where "make_rows aspect_stats = Inr rows" ..
  with run show ?thesis by (simp add: aggregate_aspects_def)
qed

text \<open>
  C5.  The aggregator raises on a mention whose sentiment is the string \<open>quotes\<close>: the
  key is the one that holds the list of quotes, and line 166 adds 1 to that list.  A
  name that is not a string makes \<open>.lower()\<close> raise in the aggregator and in the ranker.
\<close>

theorem malformed_mention_raises:
  "aggregate_aspects
     \<lparr>has_aspects = True, has_confidence = True,
      reviews = [\<lparr>aspects = JList [JDict [(''name'', JStr ''service''),
                                          (''sentiment'', JStr ''quotes'')]],
                  sentiment_confidence = Num (9 / 10)\<rparr>]\<rparr>
     = Inl TypeError \<and>
   aggregate_aspects
     \<lparr>has_aspects = True, has_confidence = True,
      reviews = [\<lparr>aspects = JList [JDict [(''name'', JNull), (''sentiment'', JStr ''positive'')]],
                  sentiment_confidence = Num (9 / 10)\<rparr>]\<rparr>
     = Inl AttributeError \<and>
   get_top_quotes_for_aspect
     \<lparr>has_aspects = True, has_confidence = True,
      reviews = [\<lparr>aspects = JList [JDict [(''name'', JNull), (''sentiment'', JStr ''positive'')]],
                  sentiment_confidence = Num (9 / 10)\<rparr>]\<rparr> ''service'' 3
     = Inl AttributeError"
  by code_simp

section \<open>The sort of the ranker\<close>

text \<open>
  The sort of the source only moves elements.  Where its comparison is \<open><\<close> on a key,
  its result is sorted and keeps elements of equal key in their order, so the reverse
  sort is the stable descending sort.
\<close>

declare bisect.simps [simp del]


lemma mset_take_drop: "mset (take n xs) + mset (drop n xs) = mset xs"
  by (metis append_take_drop_id mset_append)

lemma mset_binary_insert: "mset (binary_insert lt pre pivot) = add_mset pivot (mset pre)"
proof -
  let ?l = "bisect lt pivot pre 0 (length pre)"
  have "mset (take ?l pre @ pivot # drop ?l pre) = add_mset pivot (mset (take ?l pre) + mset (drop ?l pre))"
    by simp
  then show ?thesis by (simp only: binary_insert_def Let_def mset_take_drop)
qed

lemma mset_foldl_binary_insert:
  "mset (foldl (binary_insert lt) pre rest) = mset pre + mset rest"
  by (induction rest arbitrary: pre) (simp_all add: mset_binary_insert)

lemma mset_list_sort: "mset (list_sort lt xs) = mset xs"
proof (cases xs)
  case Nil
  then show ?thesis by (simp add: list_sort_def)
next
  case (Cons x xs')
  show ?thesis
  proof (cases xs')
    case Nil
    with Cons show ?thesis by (simp add: list_sort_def)
  next
    case (Cons y rest)
    let ?n = "run_length lt (lt y x) xs"
    from Cons \<open>xs = x # xs'\<close> have "list_sort lt xs =
        foldl (binary_insert lt) (if lt y x then rev (take ?n xs) else take ?n xs) (drop ?n xs)"
      by (simp add: list_sort_def Let_def)
    then show ?thesis
      by (simp add: mset_foldl_binary_insert mset_take_drop)
  qed
qed












lemma set_sort_by_confidence: "set (sort_by_confidence quotes) = set quotes"
proof -
  have "mset (sort_by_confidence quotes) = mset quotes"
    by (simp add: sort_by_confidence_def mset_list_sort)
  then show ?thesis by (rule mset_eq_setD)
qed

lemma sort_by_confidence_single: "sort_by_confidence [q] = [q]"
  by (simp add: sort_by_confidence_def list_sort_def)



section \<open>The ranker's order of priority\<close>






lemma set_slice_to: "set (slice_to xs n) \<subseteq> set xs"
  by (auto simp: slice_to_def dest: in_set_takeD)

lemma set_select_quotes:
  "set (select_quotes quotes top_n) \<subseteq> {q \<in> set quotes. is_polar q \<or> is_neutral q}"
proof -
  let ?s = "sort_by_confidence quotes"
  have "set (select_quotes quotes top_n)
          \<subseteq> set (filter is_polar ?s) \<union> set (filter is_neutral ?s)"
    unfolding select_quotes_def Let_def
    using set_slice_to[of "filter is_polar ?s" top_n]
      set_slice_to[of "filter is_neutral ?s" "top_n - int (length (slice_to (filter is_polar ?s) top_n))"]
      set_slice_to[of "slice_to (filter is_polar ?s) top_n" top_n]
      set_slice_to[of "slice_to (filter is_polar ?s) top_n @ slice_to (filter is_neutral ?s)
          (top_n - int (length (slice_to (filter is_polar ?s) top_n)))" top_n]
    by (auto split: if_splits)
  then show ?thesis by (auto simp: set_sort_by_confidence)
qed










section \<open>The aggregator on the two reviews of the docstring\<close>

lemma make_row_ratio:
  assumes "make_row item = Inr row"
  shows "positive_ratio row =
           (if count row > 0 then of_int (positive_count row) / of_int (count row) else 0)"
  using assms unfolding make_row_def
  by (auto split: option.splits stat.splits sum.splits)

lemma make_rows_ratio:
  assumes "make_rows aspect_stats = Inr rows"
  shows "\<forall>row \<in> set rows. positive_ratio row =
           (if count row > 0 then of_int (positive_count row) / of_int (count row) else 0)"
proof -
  let ?ok = "\<lambda>rows. \<forall>row \<in> set rows. positive_ratio row =
           (if count row > 0 then of_int (positive_count row) / of_int (count row) else 0)"
  from assms have run: "for_each (\<lambda>rows item. case make_row item of Inl e \<Rightarrow> Inl e
      | Inr row \<Rightarrow> Inr (rows @ [row])) [] aspect_stats = Inr rows"
    by (simp add: make_rows_def)
  have start: "?ok []" by simp
  from run start show ?thesis
  proof (rule for_each_invariant)
    fix t :: "aspect_row list" and x t'
    assume ok: "?ok t"
      and step: "(case make_row x of Inl e \<Rightarrow> Inl e | Inr row \<Rightarrow> Inr (t @ [row])) = Inr t'"
    from step obtain row where row: "make_row x = Inr row" and t': "t' = t @ [row]"
      by (auto split: sum.splits)
    from make_row_ratio[OF row] ok t' show "?ok t'" by simp
  qed
qed

lemma aggregate_aspects_ratio:
  assumes "aggregate_aspects df = Inr rows"
  shows "\<forall>row \<in> set rows. positive_ratio row =
           (if count row > 0 then of_int (positive_count row) / of_int (count row) else 0)"
proof (cases "reviews df = [] \<or> \<not> has_aspects df")
  case True
  with assms show ?thesis by (auto simp: aggregate_aspects_def)
next
  case False
  with assms obtain aspect_stats unsorted
    where mk: "make_rows aspect_stats = Inr unsorted"
      and rows: "rows = sort_by_count unsorted"
    by (auto simp: aggregate_aspects_def split: sum.splits)
  from make_rows_ratio[OF mk] rows show ?thesis by (simp add: sort_by_count_def)
qed

lemma food_quality_key: "strip (lower ''food quality'') = ''food quality''"
  by code_simp

lemma add_food_quality_first:
  assumes "map_of d ''name'' = Some (JStr ''food quality'')"
    and "map_of d ''sentiment'' = Some (JStr ''positive'')"
  shows "\<exists>qs. add_mention [] (JDict d) =
           Inr [(''food quality'',
                 [(''count'', IntV 1), (''positive'', IntV 1), (''negative'', IntV 0),
                  (''neutral'', IntV 0), (''quotes'', QuotesV qs)])]"
proof -
  have low: "lower ''positive'' = ''positive''" by code_simp
  show ?thesis
    using assms
    by (simp add: add_mention_def dict_get_def food_quality_key low stats_of_def default_stats_def
        bump_count_def bump_sentiment_def append_quote_def Let_def)
qed

lemma add_food_quality_second:
  assumes "map_of d ''name'' = Some (JStr ''food quality'')"
    and "map_of d ''sentiment'' = Some (JStr ''negative'')"
  shows "\<exists>qs'. add_mention [(''food quality'',
                 [(''count'', IntV 1), (''positive'', IntV 1), (''negative'', IntV 0),
                  (''neutral'', IntV 0), (''quotes'', QuotesV qs)])] (JDict d) =
           Inr [(''food quality'',
                 [(''count'', IntV 2), (''positive'', IntV 1), (''negative'', IntV 1),
                  (''neutral'', IntV 0), (''quotes'', QuotesV qs')])]"
proof -
  have low: "lower ''negative'' = ''negative''" by code_simp
  show ?thesis
    using assms
    by (simp add: add_mention_def dict_get_def food_quality_key low stats_of_def
        bump_count_def bump_sentiment_def append_quote_def Let_def)
qed

text \<open>
  C7.  Two reviews, each with one mention named \<open>food quality\<close>, the first positive and
  the second negative, give exactly one row: count 2, one positive, one negative, no
  neutral, ratio one half.  In every row of every result with a positive count, the
  ratio is the positive count divided by the count.
\<close>

theorem aggregate_food_quality:
  assumes "map_of d1 ''name'' = Some (JStr ''food quality'')"
    and "map_of d1 ''sentiment'' = Some (JStr ''positive'')"
    and "map_of d2 ''name'' = Some (JStr ''food quality'')"
    and "map_of d2 ''sentiment'' = Some (JStr ''negative'')"
  shows "aggregate_aspects
           \<lparr>has_aspects = True, has_confidence = hc,
            reviews = [\<lparr>aspects = JList [JDict d1], sentiment_confidence = c1\<rparr>,
                       \<lparr>aspects = JList [JDict d2], sentiment_confidence = c2\<rparr>]\<rparr>
         = Inr [\<lparr>name = ''food quality'', count = 2, positive_count = 1, negative_count = 1,
                 neutral_count = 0, positive_ratio = 1 / 2\<rparr>]
       \<and> (\<forall>df rows. aggregate_aspects df = Inr rows \<longrightarrow>
            (\<forall>row \<in> set rows. 0 < count row \<longrightarrow>
               positive_ratio row = of_int (positive_count row) / of_int (count row)))"
proof -
  from add_food_quality_first[OF assms(1,2)] obtain qs where
    one: "add_mention [] (JDict d1) =
           Inr [(''food quality'',
                 [(''count'', IntV 1), (''positive'', IntV 1), (''negative'', IntV 0),
                  (''neutral'', IntV 0), (''quotes'', QuotesV qs)])]" ..
  from add_food_quality_second[OF assms(3,4), of qs] obtain qs' where
    two: "add_mention [(''food quality'',
                 [(''count'', IntV 1), (''positive'', IntV 1), (''negative'', IntV 0),
                  (''neutral'', IntV 0), (''quotes'', QuotesV qs)])] (JDict d2) =
           Inr [(''food quality'',
                 [(''count'', IntV 2), (''positive'', IntV 1), (''negative'', IntV 1),
                  (''neutral'', IntV 0), (''quotes'', QuotesV qs')])]" ..
  have concrete: "aggregate_aspects
           \<lparr>has_aspects = True, has_confidence = hc,
            reviews = [\<lparr>aspects = JList [JDict d1], sentiment_confidence = c1\<rparr>,
                       \<lparr>aspects = JList [JDict d2], sentiment_confidence = c2\<rparr>]\<rparr>
         = Inr [\<lparr>name = ''food quality'', count = 2, positive_count = 1, negative_count = 1,
                 neutral_count = 0, positive_ratio = 1 / 2\<rparr>]"
    by (simp add: aggregate_aspects_def add_review_def one two make_rows_def make_row_def
        int_stat_def sort_by_count_def)
  have general: "\<forall>df rows. aggregate_aspects df = Inr rows \<longrightarrow>
            (\<forall>row \<in> set rows. 0 < count row \<longrightarrow>
               positive_ratio row = of_int (positive_count row) / of_int (count row))"
    using aggregate_aspects_ratio by auto
  from concrete general show ?thesis ..
qed

theorem aggregate_food_quality_witness:
  "map_of [(''name'', JStr ''food quality''), (''sentiment'', JStr ''positive'')] ''name''
     = Some (JStr ''food quality'') \<and>
   map_of [(''name'', JStr ''food quality''), (''sentiment'', JStr ''negative'')] ''sentiment''
     = Some (JStr ''negative'') \<and>
   aggregate_aspects
     \<lparr>has_aspects = True, has_confidence = False,
      reviews =
        [\<lparr>aspects = JList [JDict [(''name'', JStr ''food quality''), (''sentiment'', JStr ''positive'')]],
          sentiment_confidence = Num (0)\<rparr>,
         \<lparr>aspects = JList [JDict [(''name'', JStr ''food quality''), (''sentiment'', JStr ''negative'')]],
          sentiment_confidence = Num (0)\<rparr>]\<rparr>
     = Inr [\<lparr>name = ''food quality'', count = 2, positive_count = 1, negative_count = 1,
             neutral_count = 0, positive_ratio = 1 / 2\<rparr>] \<and>
   (0::int) < 2 \<and>
   positive_ratio \<lparr>name = ''food quality'', count = 2, positive_count = 1, negative_count = 1,
                   neutral_count = 0, positive_ratio = 1 / 2\<rparr> = of_int 1 / of_int 2"
  using aggregate_food_quality
    [of "[(''name'', JStr ''food quality''), (''sentiment'', JStr ''positive'')]"
        "[(''name'', JStr ''food quality''), (''sentiment'', JStr ''negative'')]" False "Num 0" "Num 0"]
  by simp

section \<open>The language filter's policy\<close>

text \<open>
  C8.  \<open>is_english\<close> is false whenever the trimmed text has fewer than three characters.
  Otherwise it is true when the classifier raises, and when the classifier returns a
  tag it is true exactly when the tag is \<open>en\<close>.
\<close>

theorem is_english_policy:
  "(length (strip text) < 3 \<longrightarrow> is_english detect text = False) \<and>
   (3 \<le> length (strip text) \<longrightarrow>
      (\<forall>e. detect text = Inl e \<longrightarrow> is_english detect text = True) \<and>
      (\<forall>lang. detect text = Inr lang \<longrightarrow> is_english detect text = (lang = ''en'')))"
  by (auto simp: is_english_def strip_def)

theorem is_english_policy_witness:
  "length (strip ''  a '') < 3 \<and>
   is_english (\<lambda>s. Inr ''en'' :: unit + string) ''  a '' = False \<and>
   3 \<le> length (strip ''hola amigo'') \<and>
   is_english (\<lambda>s. Inl () :: unit + string) ''hola amigo'' = True \<and>
   is_english (\<lambda>s. Inr ''es'' :: unit + string) ''hola amigo'' = False \<and>
   is_english (\<lambda>s. Inr ''en'' :: unit + string) ''hello friend'' = True"
proof -
  have short: "length (strip ''  a '') < 3"
    by (simp add: strip_def isspace_def code_def)
  have long1: "3 \<le> length (strip ''hola amigo'')"
    by (simp add: strip_def isspace_def code_def)
  have long2: "3 \<le> length (strip ''hello friend'')"
    by (simp add: strip_def isspace_def code_def)
  show ?thesis
    using short long1 long2
      is_english_policy [of "''  a ''" "\<lambda>s. Inr ''en'' :: unit + string"]
      is_english_policy [of "''hola amigo''" "\<lambda>s. Inl () :: unit + string"]
      is_english_policy [of "''hola amigo''" "\<lambda>s. Inr ''es'' :: unit + string"]
      is_english_policy [of "''hello friend''" "\<lambda>s. Inr ''en'' :: unit + string"]
    by simp
qed

section \<open>The normalizer applied twice\<close>

text \<open>
  C9.  \<open>clean_text\<close> is not idempotent.  In \<open>http:a@b.cc//x\<close> no URL matches; removing
  the address \<open>a@b.cc\<close> leaves \<open>http://x\<close>, which the function returns and which a
  second call removes as a URL.
\<close>

theorem clean_text_twice:
  "clean_text (Text ''http:a@b.cc//x'') = ''http://x'' \<and>
   clean_text (Text (clean_text (Text ''http:a@b.cc//x''))) = [] \<and>
   clean_text (Text (clean_text (Text ''http:a@b.cc//x''))) \<noteq> clean_text (Text ''http:a@b.cc//x'')"
proof -
  have one: "clean_text (Text ''http:a@b.cc//x'') = ''http://x''"
    by code_simp
  have two: "clean_text (Text ''http://x'') = []"
    by code_simp
  from one two show ?thesis by simp
qed

section \<open>The ranker returns only the three sentiments\<close>

text \<open>
  C10.  Every quote \<open>get_top_quotes_for_aspect\<close> returns has the sentiment \<open>positive\<close>,
  \<open>negative\<close> or \<open>neutral\<close>, whatever \<open>top_n\<close> is and however few quotes are
  returned.  A mention without the key \<open>sentiment\<close> is collected as \<open>neutral\<close>: alone
  in the frame it is returned for any positive \<open>top_n\<close>.
\<close>

theorem top_quotes_canonical_sentiment:
  "(\<forall>result. get_top_quotes_for_aspect df aspect_name top_n = Inr result \<longrightarrow>
      (\<forall>q \<in> set result. sentiment q = JStr ''positive'' \<or> sentiment q = JStr ''negative'' \<or>
                         sentiment q = JStr ''neutral'')) \<and>
   (map_of d ''sentiment'' = None \<and> map_of d ''name'' = Some (JStr nm) \<and>
    strip (lower nm) = strip (lower aspect_name) \<and> truthy (dict_get d ''quote'' (JStr [])) \<and>
    0 < top_n \<longrightarrow>
      get_top_quotes_for_aspect
        \<lparr>has_aspects = True, has_confidence = hc,
         reviews = [\<lparr>aspects = JList [JDict d], sentiment_confidence = c\<rparr>]\<rparr> aspect_name top_n
      = Inr [\<lparr>quote = dict_get d ''quote'' (JStr []), sentiment = JStr ''neutral'',
              confidence = (if hc then c else Num (1 / 2))\<rparr>])"
proof (intro conjI allI impI)
  fix result
  assume "get_top_quotes_for_aspect df aspect_name top_n = Inr result"
  then obtain quotes where "result = select_quotes quotes top_n"
    by (auto simp: get_top_quotes_for_aspect_def split: sum.splits)
  with set_select_quotes[of quotes top_n]
  show "\<forall>q \<in> set result. sentiment q = JStr ''positive'' \<or> sentiment q = JStr ''negative'' \<or>
                         sentiment q = JStr ''neutral''"
    by (auto simp: is_polar_def is_neutral_def)
next
  assume a: "map_of d ''sentiment'' = None \<and> map_of d ''name'' = Some (JStr nm) \<and>
    strip (lower nm) = strip (lower aspect_name) \<and> truthy (dict_get d ''quote'' (JStr [])) \<and>
    0 < top_n"
  let ?q = "\<lparr>quote = dict_get d ''quote'' (JStr []), sentiment = JStr ''neutral'',
              confidence = (if hc then c else Num (1 / 2))\<rparr>"
  from a have col: "collect_quotes
        \<lparr>has_aspects = True, has_confidence = hc,
         reviews = [\<lparr>aspects = JList [JDict d], sentiment_confidence = c\<rparr>]\<rparr> aspect_name
      = Inr [?q]"
    by (simp add: collect_quotes_def collect_review_def collect_mention_def dict_get_def Let_def)
  from a obtain k where n: "nat top_n = Suc k" by (cases "nat top_n") auto
  from a have pos: "0 \<le> top_n" "(0::int) < top_n" by simp_all
  have sel: "select_quotes [?q] top_n = [?q]"
    using n pos
    by (simp add: select_quotes_def Let_def slice_to_def sort_by_confidence_single
        is_polar_def is_neutral_def)
  from col sel show "get_top_quotes_for_aspect
        \<lparr>has_aspects = True, has_confidence = hc,
         reviews = [\<lparr>aspects = JList [JDict d], sentiment_confidence = c\<rparr>]\<rparr> aspect_name top_n
      = Inr [?q]"
    by (simp add: get_top_quotes_for_aspect_def)
qed

lemma ranker_food_10:
  "get_top_quotes_for_aspect ranker_frame ''FOOD'' 10 =
     Inr [\<lparr>quote = JStr ''p2'', sentiment = JStr ''negative'', confidence = Num (19 / 20)\<rparr>,
          \<lparr>quote = JStr ''p1'', sentiment = JStr ''positive'', confidence = Num (9 / 10)\<rparr>,
          \<lparr>quote = JStr ''n4'', sentiment = JStr ''neutral'', confidence = Num (19 / 20)\<rparr>,
          \<lparr>quote = JStr ''n5'', sentiment = JStr ''neutral'', confidence = Num (19 / 20)\<rparr>,
          \<lparr>quote = JStr ''n1'', sentiment = JStr ''neutral'', confidence = Num (9 / 10)\<rparr>,
          \<lparr>quote = JStr ''n2'', sentiment = JStr ''neutral'', confidence = Num (1 / 2)\<rparr>,
          \<lparr>quote = JStr ''n3'', sentiment = JStr ''neutral'', confidence = Num (1 / 2)\<rparr>]"
  by code_simp

lemma food_keys: "strip (lower ''food'') = strip (lower ''FOOD'')"
  by code_simp

theorem top_quotes_canonical_sentiment_witness:
  "get_top_quotes_for_aspect ranker_frame ''FOOD'' 10 =
     Inr [\<lparr>quote = JStr ''p2'', sentiment = JStr ''negative'', confidence = Num (19 / 20)\<rparr>,
          \<lparr>quote = JStr ''p1'', sentiment = JStr ''positive'', confidence = Num (9 / 10)\<rparr>,
          \<lparr>quote = JStr ''n4'', sentiment = JStr ''neutral'', confidence = Num (19 / 20)\<rparr>,
          \<lparr>quote = JStr ''n5'', sentiment = JStr ''neutral'', confidence = Num (19 / 20)\<rparr>,
          \<lparr>quote = JStr ''n1'', sentiment = JStr ''neutral'', confidence = Num (9 / 10)\<rparr>,
          \<lparr>quote = JStr ''n2'', sentiment = JStr ''neutral'', confidence = Num (1 / 2)\<rparr>,
          \<lparr>quote = JStr ''n3'', sentiment = JStr ''neutral'', confidence = Num (1 / 2)\<rparr>] \<and>
   list_all (\<lambda>q. sentiment q = JStr ''positive'' \<or> sentiment q = JStr ''negative'' \<or>
                 sentiment q = JStr ''neutral'')
         [\<lparr>quote = JStr ''p2'', sentiment = JStr ''negative'', confidence = Num (19 / 20)\<rparr>,
          \<lparr>quote = JStr ''p1'', sentiment = JStr ''positive'', confidence = Num (9 / 10)\<rparr>,
          \<lparr>quote = JStr ''n4'', sentiment = JStr ''neutral'', confidence = Num (19 / 20)\<rparr>,
          \<lparr>quote = JStr ''n5'', sentiment = JStr ''neutral'', confidence = Num (19 / 20)\<rparr>,
          \<lparr>quote = JStr ''n1'', sentiment = JStr ''neutral'', confidence = Num (9 / 10)\<rparr>,
          \<lparr>quote = JStr ''n2'', sentiment = JStr ''neutral'', confidence = Num (1 / 2)\<rparr>,
          \<lparr>quote = JStr ''n3'', sentiment = JStr ''neutral'', confidence = Num (1 / 2)\<rparr>] \<and>
   map_of [(''name'', JStr ''food''), (''quote'', JStr ''n3'')] ''sentiment'' = None \<and>
   truthy (dict_get [(''name'', JStr ''food''), (''quote'', JStr ''n3'')] ''quote'' (JStr [])) \<and>
   get_top_quotes_for_aspect
     \<lparr>has_aspects = True, has_confidence = False,
      reviews = [\<lparr>aspects = JList [JDict [(''name'', JStr ''food''), (''quote'', JStr ''n3'')]],
                  sentiment_confidence = Num (0)\<rparr>]\<rparr> ''FOOD'' 1
     = Inr [\<lparr>quote = JStr ''n3'', sentiment = JStr ''neutral'', confidence = Num (1 / 2)\<rparr>]"
  using top_quotes_canonical_sentiment
      [of ranker_frame "''FOOD''" 10 "[(''name'', JStr ''food''), (''quote'', JStr ''n3'')]"
          "''food''" False "Num 0"]
    top_quotes_canonical_sentiment
      [of ranker_frame "''FOOD''" 1 "[(''name'', JStr ''food''), (''quote'', JStr ''n3'')]"
          "''food''" False "Num 0"]
    ranker_food_10 food_keys
  by (simp add: dict_get_def)

end
